theory Spec2Isabelle
  imports
    Main
    "HOL-Library.Word"
    "HOL-Library.Multiset"
    "HOL-Library.Finite_Map"
    "HOL-Library.Char_ord"
    "HOL-Library.List_Lexorder"
begin

section \<open>Go library functions used by the server\<close>

text \<open>
  Go strings are byte sequences: they are modelled as \<open>string\<close> (a list of 8-bit
  characters). \<open>int64\<close> is a 64-bit word read as two's complement.
\<close>

type_synonym int64 = "64 word"

text \<open>\<open>strings.HasPrefix(s, prefix)\<close>:
  \<^verbatim>\<open>len(s) >= len(prefix) && s[:len(prefix)] == prefix\<close>.\<close>

definition HasPrefix :: "string \<Rightarrow> string \<Rightarrow> bool" where
  "HasPrefix s pre = (length pre \<le> length s \<and> take (length pre) s = pre)"

text \<open>\<open>strings.Split(s, "/")\<close>: the pieces between the separators, empty pieces
  included; the result is never empty.\<close>

fun splitSep :: "string \<Rightarrow> string list" where
  "splitSep [] = [[]]"
| "splitSep (c # cs) =
     (if c = CHR ''/'' then [] # splitSep cs
      else (case splitSep cs of [] \<Rightarrow> [[c]] | w # ws \<Rightarrow> (c # w) # ws))"

text \<open>\<open>strings.Join(elems, "/")\<close>.\<close>

fun joinSep :: "string list \<Rightarrow> string" where
  "joinSep [] = []"
| "joinSep [e] = e"
| "joinSep (e # es) = e @ CHR ''/'' # joinSep es"

text \<open>The non-empty elements of a path.\<close>

definition pathElems :: "string \<Rightarrow> string list" where
  "pathElems p = filter (\<lambda>e. e \<noteq> []) (splitSep p)"

text \<open>
  \<open>filepath.Clean\<close> (Unix), after its documented rules: multiple separators become one,
  every \<open>.\<close> element is dropped, every inner \<open>..\<close> is dropped with the non-\<open>..\<close>
  element before it, \<open>..\<close> elements that begin a rooted path are dropped, and the empty
  result is \<open>.\<close>. The argument \<open>out\<close> is the stack of the elements kept so far.
\<close>

fun cleanElems :: "bool \<Rightarrow> string list \<Rightarrow> string list \<Rightarrow> string list" where
  "cleanElems rooted out [] = rev out"
| "cleanElems rooted out (e # es) =
     (if e = [] \<or> e = ''.'' then cleanElems rooted out es
      else if e = ''..'' then
        (case out of
           [] \<Rightarrow> if rooted then cleanElems rooted [] es else cleanElems rooted [e] es
         | p # ps \<Rightarrow>
             if p = ''..'' then cleanElems rooted (e # out) es else cleanElems rooted ps es)
      else cleanElems rooted (e # out) es)"

definition Clean :: "string \<Rightarrow> string" where
  "Clean p =
     (let rooted = HasPrefix p ''/'';
          out = cleanElems rooted [] (splitSep p)
      in if rooted then CHR ''/'' # joinSep out
         else if out = [] then ''.'' else joinSep out)"

text \<open>\<open>filepath.Join\<close>: leading empty elements are ignored, the rest is joined with
  the separator and cleaned; with no non-empty element the result is empty.\<close>

definition Join :: "string list \<Rightarrow> string" where
  "Join elem =
     (case dropWhile (\<lambda>e. e = []) elem of [] \<Rightarrow> [] | es \<Rightarrow> Clean (joinSep es))"

text \<open>
  \<open>filepath.Rel(basepath, targpath)\<close>: both paths are cleaned, their common leading
  elements are dropped, every element left of the base becomes \<open>..\<close> and the elements
  left of the target follow. Where Go returns an error the string is empty (the server
  discards the error). The program only calls it on rooted paths.
\<close>

fun stripCommon :: "string list \<Rightarrow> string list \<Rightarrow> string list \<times> string list" where
  "stripCommon (b # bs) (t # ts) = (if b = t then stripCommon bs ts else (b # bs, t # ts))"
| "stripCommon bs ts = (bs, ts)"

definition Rel :: "string \<Rightarrow> string \<Rightarrow> string" where
  "Rel basepath targpath =
     (let base = Clean basepath; targ = Clean targpath
      in if targ = base then ''.''
         else if HasPrefix base ''/'' \<noteq> HasPrefix targ ''/'' then []
         else
           (case stripCommon (pathElems (if base = ''.'' then [] else base)) (pathElems targ) of
              (bs, ts) \<Rightarrow>
                if take 1 bs = [''..''] then []
                else joinSep (replicate (length bs) ''..'' @ ts)))"

text \<open>
  \<open>url.QueryUnescape\<close>: \<open>%XY\<close> with two hexadecimal digits becomes the byte \<open>0xXY\<close>,
  \<open>+\<close> becomes a space, and a \<open>%\<close> that is not followed by two hexadecimal digits is
  an error.
\<close>

definition ishex :: "char \<Rightarrow> bool" where
  "ishex c = (c \<in> set ''0123456789abcdefABCDEF'')"

definition unhex :: "char \<Rightarrow> nat" where
  "unhex c =
     (if CHR ''0'' \<le> c \<and> c \<le> CHR ''9'' then of_char c - 48
      else if CHR ''a'' \<le> c \<and> c \<le> CHR ''f'' then of_char c - 97 + 10
      else if CHR ''A'' \<le> c \<and> c \<le> CHR ''F'' then of_char c - 65 + 10
      else 0)"

fun QueryUnescape :: "string \<Rightarrow> string option" where
  "QueryUnescape [] = Some []"
| "QueryUnescape (c # cs) =
     (if c = CHR ''%'' then
        (case cs of
           h # l # rest \<Rightarrow>
             if ishex h \<and> ishex l
             then map_option ((#) (char_of (unhex h * 16 + unhex l))) (QueryUnescape rest)
             else None
         | _ \<Rightarrow> None)
      else map_option ((#) (if c = CHR ''+'' then CHR '' '' else c)) (QueryUnescape cs))"

text \<open>\<open>fmt.Sprintf("%d", n)\<close> and \<open>strconv.FormatInt(n, 10)\<close>: the decimal digits, most
  significant first, with a minus sign for a negative number.\<close>

definition digitChar :: "nat \<Rightarrow> char" where
  "digitChar d = ''0123456789'' ! (d mod 10)"

function decimal :: "nat \<Rightarrow> string" where
  "decimal n = (if n < 10 then [digitChar n] else decimal (n div 10) @ [digitChar (n mod 10)])"
  by pat_completeness auto
termination
  by (relation "measure id") auto

definition FormatInt :: "int64 \<Rightarrow> string" where
  "FormatInt n = (if sint n < 0 then CHR ''-'' # decimal (nat (- sint n)) else decimal (nat (sint n)))"

section \<open>The server's file system\<close>

text \<open>
  The file system the server reads is a tree from \<open>/\<close>. A directory holds its entries
  in the order \<open>filepath.Walk\<close> reads them (sorted by name). \<open>DirErr\<close> is a directory
  whose entries cannot be read and \<open>StatErr\<close> an entry whose \<open>lstat\<close> fails: the two
  I/O errors \<open>filepath.Walk\<close> reports. Symbolic links are not modelled.
\<close>

datatype fsnode = File string | Dir "(string \<times> fsnode) list" | DirErr | StatErr

fun lookup :: "fsnode \<Rightarrow> string list \<Rightarrow> fsnode option" where
  "lookup n [] = Some n"
| "lookup (Dir es) (c # cs) = (case map_of es c of None \<Rightarrow> None | Some n \<Rightarrow> lookup n cs)"
| "lookup n (c # cs) = None"

text \<open>\<open>os.Stat\<close>: the node at the path, or \<open>None\<close> for the error.\<close>

definition Stat :: "fsnode \<Rightarrow> string \<Rightarrow> fsnode option" where
  "Stat fs name = (case lookup fs (pathElems name) of Some StatErr \<Rightarrow> None | r \<Rightarrow> r)"

text \<open>The methods \<open>IsDir()\<close> and \<open>Size()\<close> of \<open>os.FileInfo\<close>; the program reads the size
  of regular files only.\<close>

fun IsDir :: "fsnode \<Rightarrow> bool" where
  "IsDir (File c) = False"
| "IsDir n = True"

fun SizeOf :: "fsnode \<Rightarrow> int64" where
  "SizeOf (File c) = of_nat (length c)"
| "SizeOf n = 0"

section \<open>The server (\<open>startServer\<close>)\<close>

record FileInfo =
  Path :: string
  Size :: int64

text \<open>The texts of the JSON error bodies, by their meaning.\<close>

datatype errtext =
  InvalidPath | AccessDenied | NotFound | IsDirectory | NotDirectory | WalkError

text \<open>
  What a handler answers: \<open>c.JSON(status, gin.H{"error": ...})\<close>, the listing
  \<open>c.JSON(200, gin.H{"files": files})\<close>, the file streamed by \<open>http.ServeFile\<close> with the
  headers set before the call, or the panic of \<open>filePath[1:]\<close> on an empty parameter
  (gin never passes one). \<open>http.ServeFile\<close> has three more answers: a redirect with
  its \<open>Location\<close>, an error in plain text, and the answers it gives to a request with
  \<open>Range\<close> or conditional header fields and for a name that is not a regular file
  (206, 304, 412, 416, a directory page, ...), which are not told apart here:
  \<open>Undetailed\<close>.
\<close>

datatype response =
    JSONError nat errtext
  | JSONFiles "FileInfo list"
  | FileStream nat "(string \<times> string) list" string
  | Panic
  | Redirect nat string
  | TextError nat string
  | Undetailed

text \<open>
  The request, as far as the handlers and \<open>http.ServeFile\<close> read it: \<open>r.URL.Path\<close> (the
  path as gin routes it, percent-decoded once), \<open>r.URL.RawQuery\<close> and \<open>r.Header.Get\<close>,
  which is empty for a field the request does not carry. The route is registered with
  \<open>r.GET\<close>, so the method is \<open>GET\<close>. \<open>Param\<close> is \<open>c.Param("path")\<close> on the route
  \<open>/download/*path\<close>: what follows \<open>/download\<close> in the path, the slash included.
\<close>

record request =
  URLPath :: string
  RawQuery :: string
  Header :: "string \<Rightarrow> string"

definition Param :: "request \<Rightarrow> string" where
  "Param r = drop (length ''/download'') (URLPath r)"

definition StatusMovedPermanently :: nat where "StatusMovedPermanently = 301"
definition StatusOK :: nat where "StatusOK = 200"
definition StatusBadRequest :: nat where "StatusBadRequest = 400"
definition StatusForbidden :: nat where "StatusForbidden = 403"
definition StatusNotFound :: nat where "StatusNotFound = 404"
definition StatusInternalServerError :: nat where "StatusInternalServerError = 500"

text \<open>\<open>strings.HasSuffix(s, suffix)\<close>.\<close>

definition HasSuffix :: "string \<Rightarrow> string \<Rightarrow> bool" where
  "HasSuffix s suf = (length suf \<le> length s \<and> drop (length s - length suf) s = suf)"

text \<open>\<open>containsDotDot\<close> of \<open>net/http\<close>: whether one of the fields of the path, cut at
  every slash and backslash, is \<open>..\<close>.\<close>

fun slashFields :: "string \<Rightarrow> string list" where
  "slashFields [] = [[]]"
| "slashFields (c # cs) =
     (if c = CHR ''/'' \<or> c = CHR 0x5C then [] # slashFields cs
      else (case slashFields cs of [] \<Rightarrow> [[c]] | w # ws \<Rightarrow> (c # w) # ws))"

definition containsDotDot :: "string \<Rightarrow> bool" where
  "containsDotDot v = (''..'' \<in> set (slashFields v))"

text \<open>\<open>localRedirect\<close> of \<open>net/http\<close>: status 301 with the \<open>Location\<close> given, followed
  by the query of the request.\<close>

definition localRedirect :: "request \<Rightarrow> string \<Rightarrow> response" where
  "localRedirect r newPath =
     Redirect StatusMovedPermanently
       (if RawQuery r \<noteq> [] then newPath @ ''?'' @ RawQuery r else newPath)"

text \<open>The header fields \<open>serveContent\<close> of \<open>net/http\<close> reads before it sends the whole
  file: the preconditions and \<open>Range\<close> (\<open>If-Range\<close> is read only beside a \<open>Range\<close>).\<close>

definition conditional :: "request \<Rightarrow> bool" where
  "conditional r =
     list_ex (\<lambda>h. Header r h \<noteq> [])
       [''If-Match'', ''If-Unmodified-Since'', ''If-None-Match'', ''If-Modified-Since'', ''Range'']"

text \<open>
  \<open>http.ServeFile(w, r, name)\<close>, after the source of \<open>net/http\<close> (\<open>ServeFile\<close>,
  \<open>serveFile\<close>, \<open>serveContent\<close>): a request whose URL path has a \<open>..\<close> element is answered
  400 and one whose URL path ends in \<open>/index.html\<close> is redirected to \<open>./\<close>, both before
  the file is opened; a regular file is then sent in full with status 200 to a request
  without \<open>Range\<close> and conditional header fields, with \<open>Content-Length\<close> set to its size;
  of the headers only those set by the caller are recorded. The program calls it
  through gin's \<open>c.File\<close> with the request of the handler.
\<close>

definition ServeFile :: "request \<Rightarrow> (string \<times> string) list \<Rightarrow> fsnode \<Rightarrow> string \<Rightarrow> response" where
  "ServeFile r headers fs name =
     (if containsDotDot (URLPath r) then TextError StatusBadRequest ''invalid URL path''
      else if HasSuffix (URLPath r) ''/index.html'' then localRedirect r ''./''
      else
        (case Stat fs name of
           Some (File content) \<Rightarrow>
             if conditional r then Undetailed else FileStream StatusOK headers content
         | _ \<Rightarrow> Undetailed))"

text \<open>The handler of \<open>GET /download/*path\<close> (lines 119 to 151).\<close>

definition serveDownload :: "fsnode \<Rightarrow> string \<Rightarrow> request \<Rightarrow> response" where
  "serveDownload fs absPath r =
     (let filePath = Param r
      in if filePath = [] then Panic
         else
           (case QueryUnescape (drop 1 filePath) of
              None \<Rightarrow> JSONError StatusBadRequest InvalidPath
            | Some decodedPath \<Rightarrow>
                (let fullPath = Join [absPath, decodedPath]
                 in if \<not> HasPrefix fullPath absPath then JSONError StatusForbidden AccessDenied
                    else
                      (case Stat fs fullPath of
                         None \<Rightarrow> JSONError StatusNotFound NotFound
                       | Some info \<Rightarrow>
                           if IsDir info then JSONError StatusBadRequest IsDirectory
                           else ServeFile r [(''Content-Length'', FormatInt (SizeOf info))]
                                  fs fullPath))))"

text \<open>The request \<open>GET p\<close> without a query and without header fields, and the handler
  on such a request for \<open>/download\<close> followed by \<open>param\<close>, the value of
  \<open>c.Param("path")\<close>.\<close>

definition plainGET :: "string \<Rightarrow> request" where
  "plainGET p = \<lparr>URLPath = p, RawQuery = [], Header = (\<lambda>h. [])\<rparr>"

definition downloadHandler :: "fsnode \<Rightarrow> string \<Rightarrow> string \<Rightarrow> response" where
  "downloadHandler fs absPath param = serveDownload fs absPath (plainGET (''/download'' @ param))"

text \<open>
  \<open>filepath.Walk\<close> with the callback of the \<open>/list\<close> handler inlined: a regular file
  appends its record, a directory is walked entry by entry, and the first error ends the
  walk (\<open>None\<close>), since the callback returns every error it is given.
\<close>

fun walk :: "string \<Rightarrow> string \<Rightarrow> fsnode \<Rightarrow> FileInfo list \<Rightarrow> FileInfo list option"
  and walkNames ::
    "string \<Rightarrow> string \<Rightarrow> (string \<times> fsnode) list \<Rightarrow> FileInfo list \<Rightarrow> FileInfo list option"
where
  "walk absPath path (File c) files =
     Some (files @ [\<lparr>Path = Rel absPath path, Size = SizeOf (File c)\<rparr>])"
| "walk absPath path (Dir es) files = walkNames absPath path es files"
| "walk absPath path DirErr files = None"
| "walk absPath path StatErr files = None"
| "walkNames absPath path [] files = Some files"
| "walkNames absPath path ((name, n) # es) files =
     (case walk absPath (Join [path, name]) n files of
        None \<Rightarrow> None
      | Some files' \<Rightarrow> walkNames absPath path es files')"

text \<open>The handler of \<open>GET /list/*path\<close>.\<close>

definition listHandler :: "fsnode \<Rightarrow> string \<Rightarrow> string \<Rightarrow> response" where
  "listHandler fs absPath param =
     (if param = [] then Panic
      else
        (case QueryUnescape (drop 1 param) of
           None \<Rightarrow> JSONError StatusBadRequest InvalidPath
         | Some decodedPath \<Rightarrow>
             (let fullPath = Join [absPath, decodedPath]
              in if \<not> HasPrefix fullPath absPath then JSONError StatusForbidden AccessDenied
                 else
                   (case Stat fs fullPath of
                      None \<Rightarrow> JSONError StatusNotFound NotFound
                    | Some info \<Rightarrow>
                        if \<not> IsDir info then JSONError StatusBadRequest NotDirectory
                        else
                          (case walk absPath fullPath info [] of
                             None \<Rightarrow> JSONError StatusInternalServerError WalkError
                           | Some files \<Rightarrow> JSONFiles files)))))"


section \<open>Reference notions for the server's claims\<close>

text \<open>
  Containment by the separator-terminated rule of the specification: the resolved path
  is the root itself or begins with the root followed by a separator.
\<close>

definition withinRoot :: "string \<Rightarrow> string \<Rightarrow> bool" where
  "withinRoot root p = (p = root \<or> HasPrefix p (root @ ''/''))"

text \<open>A file name: not empty, not \<open>.\<close> or \<open>..\<close>, without a separator. In a well-formed
  tree every entry has such a name.\<close>

definition validName :: "string \<Rightarrow> bool" where
  "validName e = (e \<noteq> [] \<and> e \<noteq> ''.'' \<and> e \<noteq> ''..'' \<and> CHR ''/'' \<notin> set e)"

fun wfNode :: "fsnode \<Rightarrow> bool" and wfEntries :: "(string \<times> fsnode) list \<Rightarrow> bool" where
  "wfNode (Dir es) = wfEntries es"
| "wfNode (File c) = True"
| "wfNode DirErr = True"
| "wfNode StatErr = True"
| "wfEntries [] = True"
| "wfEntries ((name, n) # es) = (validName name \<and> wfNode n \<and> wfEntries es)"

text \<open>The absolute, clean path with the given elements.\<close>

definition absOf :: "string list \<Rightarrow> string" where
  "absOf elems = CHR ''/'' # joinSep elems"

text \<open>
  The listing the specification asks for: one record for every regular file of the
  subtree, in walk order, none for a directory; \<open>rel\<close> holds the elements of the node's
  path below the root, so every path is relative to the root.
\<close>

fun records :: "string list \<Rightarrow> fsnode \<Rightarrow> FileInfo list"
  and recordsIn :: "string list \<Rightarrow> (string \<times> fsnode) list \<Rightarrow> FileInfo list" where
  "records rel (File c) = [\<lparr>Path = joinSep rel, Size = of_nat (length c)\<rparr>]"
| "records rel (Dir es) = recordsIn rel es"
| "records rel DirErr = []"
| "records rel StatErr = []"
| "recordsIn rel [] = []"
| "recordsIn rel ((name, n) # es) = records (rel @ [name]) n @ recordsIn rel es"

text \<open>A subtree that can be walked without an I/O error.\<close>

fun readable :: "fsnode \<Rightarrow> bool" and readableIn :: "(string \<times> fsnode) list \<Rightarrow> bool" where
  "readable (File c) = True"
| "readable (Dir es) = readableIn es"
| "readable DirErr = False"
| "readable StatErr = False"
| "readableIn [] = True"
| "readableIn ((name, n) # es) = (readable n \<and> readableIn es)"


definition siblingFS :: fsnode where
  "siblingFS =
     Dir [(''data'',
       Dir [(''a'', Dir [(''pub.txt'', File ''hi'')]),
            (''ab'', Dir [(''secret.txt'', File ''top'')])])]"

definition exampleFS :: fsnode where
  "exampleFS =
     Dir [(''srv'',
            Dir [(''a'', File ''0123456789''),
                 (''b'', Dir [(''c'', File ''01234567890123456789'')])]),
          (''bad'', Dir [(''d'', File ''x''), (''e'', DirErr)])]"

section \<open>The batch download orchestrator (\<open>downloadDirectory\<close>)\<close>

text \<open>
  The worker pool of \<open>downloadDirectory\<close>, from the creation of the channel on: the state
  below is reached once the listing has been fetched and decoded and is not empty. The
  main goroutine and the workers are interleaved by a schedule, a list of actors; every
  schedule is an interleaving. A worker is \<open>Idle\<close> at the head of its
  \<open>for file := range tasks\<close> loop, \<open>Busy f\<close> inside \<open>downloadFile(f.Path)\<close> and
  \<open>Exited\<close> once the loop has ended and the deferred \<open>wg.Done()\<close> has run. The main
  goroutine is in its spawning loop with counter \<open>i\<close>, in its sending loop with the
  files still to send, in \<open>wg.Wait()\<close> after \<open>close(tasks)\<close>, or has returned. \<open>calls\<close>
  records the argument of every call of \<open>downloadFile\<close>, in the order the calls start.

  How a call of \<open>downloadFile\<close> ends is decided outside the orchestrator, so the schedule
  decides it too. For a busy worker \<open>i\<close>, the step \<open>Worker i\<close> is the return of its call;
  \<open>Panics i\<close> is a panic inside the call (the assignment to a nil map at line 305): no
  goroutine recovers, so the process ends there and nobody steps again; \<open>Stalls i\<close> finds
  the call blocked for ever (\<open>http.Client{}\<close> has no timeout), and the worker, \<open>Stalled\<close>,
  takes no further step.
\<close>

datatype worker = Idle | Busy FileInfo | Exited | Stalled FileInfo | Aborted FileInfo

datatype mainpc = Spawning nat | Sending "FileInfo list" | Waiting | Returned

record orch =
  pc :: mainpc
  tasks :: "FileInfo list"
  closed :: bool
  capacity :: nat
  wg :: int
  workers :: "worker list"
  calls :: "string list"

datatype actor = Main | Worker nat | Stalls nat | Panics nat

fun aborted :: "worker \<Rightarrow> bool" where
  "aborted (Aborted f) = True"
| "aborted w = False"

definition ended :: "orch \<Rightarrow> bool" where
  "ended s = list_ex aborted (workers s)"

definition init :: "FileInfo list \<Rightarrow> orch" where
  "init files =
     \<lparr>pc = Spawning 0, tasks = [], closed = False, capacity = length files, wg = 0,
      workers = [], calls = []\<rparr>"

text \<open>One step of an actor, or \<open>None\<close> when the actor is blocked or has ended: a send
  blocks on a full buffer, a receive on an empty open channel, \<open>wg.Wait()\<close> on a
  non-zero counter, a stalled call for ever, and everybody once the process has ended
  by a panic.\<close>

fun fire :: "int \<Rightarrow> FileInfo list \<Rightarrow> actor \<Rightarrow> orch \<Rightarrow> orch option" where
  "fire concurrency files Main s =
     (if ended s then None
      else
        (case pc s of
           Spawning i \<Rightarrow>
             if int i < concurrency
             then Some (s\<lparr>pc := Spawning (Suc i), wg := wg s + 1, workers := workers s @ [Idle]\<rparr>)
             else Some (s\<lparr>pc := Sending files\<rparr>)
         | Sending [] \<Rightarrow> Some (s\<lparr>closed := True, pc := Waiting\<rparr>)
         | Sending (f # fs) \<Rightarrow>
             if length (tasks s) < capacity s
             then Some (s\<lparr>pc := Sending fs, tasks := tasks s @ [f]\<rparr>)
             else None
         | Waiting \<Rightarrow> if wg s = 0 then Some (s\<lparr>pc := Returned\<rparr>) else None
         | Returned \<Rightarrow> None))"
| "fire concurrency files (Worker i) s =
     (if ended s then None
      else if i < length (workers s) then
        (case workers s ! i of
           Idle \<Rightarrow>
             (case tasks s of
                f # q \<Rightarrow>
                  Some (s\<lparr>tasks := q, workers := (workers s)[i := Busy f],
                          calls := calls s @ [Path f]\<rparr>)
              | [] \<Rightarrow>
                  if closed s
                  then Some (s\<lparr>workers := (workers s)[i := Exited], wg := wg s - 1\<rparr>)
                  else None)
         | Busy f \<Rightarrow> Some (s\<lparr>workers := (workers s)[i := Idle]\<rparr>)
         | Exited \<Rightarrow> None
         | Stalled f \<Rightarrow> None
         | Aborted f \<Rightarrow> None)
      else None)"
| "fire concurrency files (Stalls i) s =
     (if ended s then None
      else if i < length (workers s) then
        (case workers s ! i of
           Busy f \<Rightarrow> Some (s\<lparr>workers := (workers s)[i := Stalled f]\<rparr>)
         | _ \<Rightarrow> None)
      else None)"
| "fire concurrency files (Panics i) s =
     (if ended s then None
      else if i < length (workers s) then
        (case workers s ! i of
           Busy f \<Rightarrow> Some (s\<lparr>workers := (workers s)[i := Aborted f]\<rparr>)
         | _ \<Rightarrow> None)
      else None)"

fun run :: "int \<Rightarrow> FileInfo list \<Rightarrow> actor list \<Rightarrow> orch \<Rightarrow> orch option" where
  "run concurrency files [] s = Some s"
| "run concurrency files (a # as) s =
     (case fire concurrency files a s of
        None \<Rightarrow> None
      | Some s' \<Rightarrow> run concurrency files as s')"



text \<open>The files the main goroutine has not sent yet, the workers that have not exited,
  the invariant of the pool, and a bound on the steps still to take.\<close>

fun pending :: "FileInfo list \<Rightarrow> mainpc \<Rightarrow> FileInfo list" where
  "pending files (Spawning i) = files"
| "pending files (Sending fs) = fs"
| "pending files Waiting = []"
| "pending files Returned = []"

definition live :: "worker list \<Rightarrow> nat" where
  "live ws = length (filter (\<lambda>w. w \<noteq> Exited) ws)"

definition orchInv :: "int \<Rightarrow> FileInfo list \<Rightarrow> orch \<Rightarrow> bool" where
  "orchInv concurrency files s =
     (capacity s = length files
      \<and> mset (calls s) + mset (map Path (tasks s)) + mset (map Path (pending files (pc s)))
          = mset (map Path files)
      \<and> wg s = int (live (workers s))
      \<and> length (workers s) = (case pc s of Spawning i \<Rightarrow> i | _ \<Rightarrow> nat concurrency)
      \<and> (case pc s of Spawning i \<Rightarrow> int i \<le> max 0 concurrency | _ \<Rightarrow> True)
      \<and> (closed s = (pc s = Waiting \<or> pc s = Returned))
      \<and> (Exited \<in> set (workers s) \<longrightarrow> closed s \<and> tasks s = [])
      \<and> (case pc s of Spawning i \<Rightarrow> tasks s = [] \<and> calls s = [] | _ \<Rightarrow> True)
      \<and> (pc s = Returned \<longrightarrow> wg s = 0))"




definition fileA :: FileInfo where "fileA = \<lparr>Path = ''a'', Size = 1\<rparr>"
definition fileB :: FileInfo where "fileB = \<lparr>Path = ''b/c'', Size = 2\<rparr>"



section \<open>Go library functions used by the client: JSON\<close>

text \<open>
  The ledger is written with \<open>json.Marshal\<close> and read with \<open>json.Unmarshal\<close>. Both are
  modelled on the bytes of the file, after the documentation of \<open>encoding/json\<close>.
  The double quote and the backslash are written by their codes.
\<close>

abbreviation dq :: char where "dq \<equiv> CHR 0x22"

abbreviation bsl :: char where "bsl \<equiv> CHR 0x5C"

text \<open>
  \<open>utf8.DecodeRune\<close>: \<open>runeLen s\<close> is the number of bytes of the UTF-8 encoding at the
  head of \<open>s\<close>, or 0 when no valid encoding starts there. The first byte announces the
  length and the range the second byte must lie in; the other bytes are continuation
  bytes.
\<close>

definition cont :: "char \<Rightarrow> bool" where
  "cont c = (0x80 \<le> (of_char c :: nat) \<and> (of_char c :: nat) \<le> 0xBF)"

definition leadLen :: "nat \<Rightarrow> nat" where
  "leadLen b =
     (if b < 0x80 then 1
      else if 0xC2 \<le> b \<and> b \<le> 0xDF then 2
      else if 0xE0 \<le> b \<and> b \<le> 0xEF then 3
      else if 0xF0 \<le> b \<and> b \<le> 0xF4 then 4
      else 0)"

definition accepts :: "nat \<Rightarrow> char \<Rightarrow> bool" where
  "accepts b c1 =
     ((if b = 0xE0 then 0xA0 else if b = 0xF0 then 0x90 else 0x80) \<le> (of_char c1 :: nat)
      \<and> (of_char c1 :: nat) \<le> (if b = 0xED then 0x9F else if b = 0xF4 then 0x8F else 0xBF))"

definition runeLen :: "string \<Rightarrow> nat" where
  "runeLen s =
     (case s of
        [] \<Rightarrow> 0
      | c # cs \<Rightarrow>
          (let n = leadLen (of_char c)
           in if n \<le> 1 then n
              else if length cs < n - 1 then 0
              else if accepts (of_char c) (hd cs) \<and> list_all cont (take (n - 2) (tl cs)) then n
              else 0))"

text \<open>\<open>utf8.ValidString\<close>.\<close>

function validUTF8 :: "string \<Rightarrow> bool" where
  "validUTF8 [] = True"
| "validUTF8 (c # cs) =
     (if runeLen (c # cs) = 0 then False else validUTF8 (drop (runeLen (c # cs)) (c # cs)))"
  by pat_completeness auto

termination
  by (relation "measure length") (auto simp: neq0_conv)

text \<open>
  The body of a JSON string as \<open>json.Marshal\<close> writes it (with HTML escaping): a safe
  ASCII byte stands for itself; the quote, the backslash and the control characters are
  escaped, as are \<open><\<close>, \<open>>\<close> and \<open>&\<close>; a byte that is not valid UTF-8 becomes the escape of U+FFFD;
  U+2028 and U+2029 are escaped; every other encoded rune is copied.
\<close>

definition hexDigit :: "nat \<Rightarrow> char" where
  "hexDigit n = ''0123456789abcdef'' ! (n mod 16)"

definition htmlSafe :: "char \<Rightarrow> bool" where
  "htmlSafe c =
     (0x20 \<le> (of_char c :: nat) \<and> (of_char c :: nat) < 0x80
      \<and> c \<noteq> dq \<and> c \<noteq> bsl \<and> c \<noteq> CHR ''<'' \<and> c \<noteq> CHR ''>'' \<and> c \<noteq> CHR ''&'')"

definition escapeByte :: "char \<Rightarrow> string" where
  "escapeByte c =
     (if c = bsl \<or> c = dq then [bsl, c]
      else if c = CHR 0x08 then [bsl, CHR ''b'']
      else if c = CHR 0x0C then [bsl, CHR ''f'']
      else if c = CHR 0x0A then [bsl, CHR ''n'']
      else if c = CHR 0x0D then [bsl, CHR ''r'']
      else if c = CHR 0x09 then [bsl, CHR ''t'']
      else [bsl, CHR ''u'', CHR ''0'', CHR ''0'',
            hexDigit (of_char c div 16), hexDigit (of_char c mod 16)])"

function encodeString :: "string \<Rightarrow> string" where
  "encodeString [] = []"
| "encodeString (c # cs) =
     (if (of_char c :: nat) < 0x80 then
        (if htmlSafe c then [c] else escapeByte c) @ encodeString cs
      else if runeLen (c # cs) = 0 then bsl # ''ufffd'' @ encodeString cs
      else if take 3 (c # cs) = [CHR 0xE2, CHR 0x80, CHR 0xA8] then
        bsl # ''u2028'' @ encodeString (drop 3 (c # cs))
      else if take 3 (c # cs) = [CHR 0xE2, CHR 0x80, CHR 0xA9] then
        bsl # ''u2029'' @ encodeString (drop 3 (c # cs))
      else take (runeLen (c # cs)) (c # cs) @ encodeString (drop (runeLen (c # cs)) (c # cs)))"
  by pat_completeness auto

termination
  by (relation "measure length") (auto simp: neq0_conv)

text \<open>
  The decoder of a JSON string (\<open>unquote\<close> of \<open>encoding/json\<close>), on the text after the
  opening quote: it returns the decoded string and the text after the closing quote.
  An escape \<open>uXXXX\<close> is a UTF-16 unit, a valid surrogate pair is one rune, an invalid surrogate
  and an invalid byte become U+FFFD, and a raw control character is a syntax error.
\<close>

definition getu4 :: "string \<Rightarrow> nat option" where
  "getu4 s =
     (case s of
        h1 # h2 # h3 # h4 # r \<Rightarrow>
          if ishex h1 \<and> ishex h2 \<and> ishex h3 \<and> ishex h4
          then Some (((unhex h1 * 16 + unhex h2) * 16 + unhex h3) * 16 + unhex h4)
          else None
      | _ \<Rightarrow> None)"

definition replacementChar :: string where
  "replacementChar = [CHR 0xEF, CHR 0xBF, CHR 0xBD]"

definition encodeRune :: "nat \<Rightarrow> string" where
  "encodeRune r =
     (if r < 0x80 then [char_of r]
      else if r < 0x800 then [char_of (0xC0 + r div 64), char_of (0x80 + r mod 64)]
      else if (0xD800 \<le> r \<and> r \<le> 0xDFFF) \<or> 0x10FFFF < r then replacementChar
      else if r < 0x10000 then
        [char_of (0xE0 + r div 4096), char_of (0x80 + r div 64 mod 64), char_of (0x80 + r mod 64)]
      else
        [char_of (0xF0 + r div 262144), char_of (0x80 + r div 4096 mod 64),
         char_of (0x80 + r div 64 mod 64), char_of (0x80 + r mod 64)])"

definition unescapeChar :: "char \<Rightarrow> char option" where
  "unescapeChar e =
     (if e = dq \<or> e = bsl \<or> e = CHR ''/'' then Some e
      else if e = CHR ''b'' then Some (CHR 0x08)
      else if e = CHR ''f'' then Some (CHR 0x0C)
      else if e = CHR ''n'' then Some (CHR 0x0A)
      else if e = CHR ''r'' then Some (CHR 0x0D)
      else if e = CHR ''t'' then Some (CHR 0x09)
      else None)"

definition emit :: "string \<Rightarrow> (string \<times> string) option \<Rightarrow> (string \<times> string) option" where
  "emit out r = map_option (\<lambda>(s, rest). (out @ s, rest)) r"

function unquote :: "string \<Rightarrow> (string \<times> string) option" where
  "unquote [] = None"
| "unquote (c # cs) =
     (if c = dq then Some ([], cs)
      else if c = bsl then
        (case cs of
           [] \<Rightarrow> None
         | e # r \<Rightarrow>
             if e = CHR ''u'' then
               (case getu4 r of
                  None \<Rightarrow> None
                | Some rr \<Rightarrow>
                    if 0xD800 \<le> rr \<and> rr \<le> 0xDFFF then
                      (case (if take 2 (drop 4 r) = [bsl, CHR ''u''] then getu4 (drop 6 r) else None) of
                         None \<Rightarrow> emit replacementChar (unquote (drop 4 r))
                       | Some rr1 \<Rightarrow>
                           if rr < 0xDC00 \<and> 0xDC00 \<le> rr1 \<and> rr1 \<le> 0xDFFF
                           then emit (encodeRune ((rr - 0xD800) * 1024 + (rr1 - 0xDC00) + 0x10000))
                                  (unquote (drop 10 r))
                           else emit replacementChar (unquote (drop 4 r)))
                    else emit (encodeRune rr) (unquote (drop 4 r)))
             else
               (case unescapeChar e of
                  None \<Rightarrow> None
                | Some ch \<Rightarrow> emit [ch] (unquote r)))
      else if (of_char c :: nat) < 0x20 then None
      else if (of_char c :: nat) < 0x80 then emit [c] (unquote cs)
      else if runeLen (c # cs) = 0 then emit replacementChar (unquote cs)
      else emit (take (runeLen (c # cs)) (c # cs)) (unquote (drop (runeLen (c # cs)) (c # cs))))"
  by pat_completeness auto

termination
  by (relation "measure length") (auto simp: neq0_conv)

text \<open>White space, and the number literal of the JSON grammar:
  \<open>-? (0 | [1-9][0-9]*) (. [0-9]+)? ([eE] [+-]? [0-9]+)?\<close>.\<close>

definition isSpace :: "char \<Rightarrow> bool" where
  "isSpace c = (c = CHR '' '' \<or> c = CHR 0x09 \<or> c = CHR 0x0D \<or> c = CHR 0x0A)"

definition skipWS :: "string \<Rightarrow> string" where
  "skipWS s = dropWhile isSpace s"

definition isDigit :: "char \<Rightarrow> bool" where
  "isDigit c = (CHR ''0'' \<le> c \<and> c \<le> CHR ''9'')"

definition scanInt :: "string \<Rightarrow> (string \<times> string) option" where
  "scanInt s =
     (case s of
        [] \<Rightarrow> None
      | c # cs \<Rightarrow>
          if c = CHR ''0'' then Some ([c], cs)
          else if isDigit c then Some (c # takeWhile isDigit cs, dropWhile isDigit cs)
          else None)"

definition scanFrac :: "string \<Rightarrow> (string \<times> string) option" where
  "scanFrac s =
     (case s of
        [] \<Rightarrow> Some ([], s)
      | c # cs \<Rightarrow>
          if c = CHR ''.'' then
            (if takeWhile isDigit cs = [] then None
             else Some (c # takeWhile isDigit cs, dropWhile isDigit cs))
          else Some ([], s))"

definition scanExp :: "string \<Rightarrow> (string \<times> string) option" where
  "scanExp s =
     (case s of
        [] \<Rightarrow> Some ([], s)
      | c # cs \<Rightarrow>
          if c = CHR ''e'' \<or> c = CHR ''E'' then
            (let sign = (case cs of [] \<Rightarrow> [] | d # ds \<Rightarrow> if d = CHR ''+'' \<or> d = CHR ''-'' then [d] else []);
                 r = drop (length sign) cs
             in if takeWhile isDigit r = [] then None
                else Some (c # sign @ takeWhile isDigit r, dropWhile isDigit r))
          else Some ([], s))"

definition scanNumber :: "string \<Rightarrow> (string \<times> string) option" where
  "scanNumber s =
     (let neg = (case s of [] \<Rightarrow> [] | c # cs \<Rightarrow> if c = CHR ''-'' then [c] else [])
      in case scanInt (drop (length neg) s) of
           None \<Rightarrow> None
         | Some (i, r1) \<Rightarrow>
             (case scanFrac r1 of
                None \<Rightarrow> None
              | Some (f, r2) \<Rightarrow>
                  (case scanExp r2 of
                     None \<Rightarrow> None
                   | Some (e, r3) \<Rightarrow> Some (neg @ i @ f @ e, r3))))"

text \<open>
  The JSON values, and the parser of a whole document. A number keeps its literal. The
  recursion is on a fuel argument, of which \<open>parseJSON\<close> gives more than any document of
  that length can use (every two nested calls consume a byte); \<open>depth\<close> is the nesting
  still allowed, 10000 levels in \<open>encoding/json\<close>. \<open>None\<close> is the syntax error.
\<close>

datatype json =
    JNull | JBool bool | JNumber string | JString string
  | JArray "json list" | JObject "(string \<times> json) list"

fun parseValue :: "nat \<Rightarrow> nat \<Rightarrow> string \<Rightarrow> (json \<times> string) option"
  and parseElems :: "nat \<Rightarrow> nat \<Rightarrow> string \<Rightarrow> (json list \<times> string) option"
  and parseMembers :: "nat \<Rightarrow> nat \<Rightarrow> string \<Rightarrow> ((string \<times> json) list \<times> string) option"
where
  "parseValue 0 depth s = None"
| "parseValue (Suc fuel) depth s =
     (case skipWS s of
        [] \<Rightarrow> None
      | c # cs \<Rightarrow>
          if c = CHR ''{'' then
            (if depth = 0 then None
             else
               (case skipWS cs of
                  [] \<Rightarrow> None
                | c' # cs' \<Rightarrow>
                    if c' = CHR ''}'' then Some (JObject [], cs')
                    else map_option (\<lambda>(ms, r). (JObject ms, r)) (parseMembers fuel (depth - 1) cs)))
          else if c = CHR ''['' then
            (if depth = 0 then None
             else
               (case skipWS cs of
                  [] \<Rightarrow> None
                | c' # cs' \<Rightarrow>
                    if c' = CHR '']'' then Some (JArray [], cs')
                    else map_option (\<lambda>(vs, r). (JArray vs, r)) (parseElems fuel (depth - 1) cs)))
          else if c = dq then map_option (\<lambda>(str, r). (JString str, r)) (unquote cs)
          else if take 4 (c # cs) = ''true'' then Some (JBool True, drop 4 (c # cs))
          else if take 5 (c # cs) = ''false'' then Some (JBool False, drop 5 (c # cs))
          else if take 4 (c # cs) = ''null'' then Some (JNull, drop 4 (c # cs))
          else if c = CHR ''-'' \<or> isDigit c then
            map_option (\<lambda>(lit, r). (JNumber lit, r)) (scanNumber (c # cs))
          else None)"
| "parseElems 0 depth s = None"
| "parseElems (Suc fuel) depth s =
     (case parseValue fuel depth s of
        None \<Rightarrow> None
      | Some (v, r) \<Rightarrow>
          (case skipWS r of
             [] \<Rightarrow> None
           | c # cs \<Rightarrow>
               if c = CHR '','' then map_option (\<lambda>(vs, r'). (v # vs, r')) (parseElems fuel depth cs)
               else if c = CHR '']'' then Some ([v], cs)
               else None))"
| "parseMembers 0 depth s = None"
| "parseMembers (Suc fuel) depth s =
     (case skipWS s of
        [] \<Rightarrow> None
      | c # cs \<Rightarrow>
          if c = dq then
            (case unquote cs of
               None \<Rightarrow> None
             | Some (k, r) \<Rightarrow>
                 (case skipWS r of
                    [] \<Rightarrow> None
                  | c2 # r2 \<Rightarrow>
                      if c2 = CHR '':'' then
                        (case parseValue fuel depth r2 of
                           None \<Rightarrow> None
                         | Some (v, r3) \<Rightarrow>
                             (case skipWS r3 of
                                [] \<Rightarrow> None
                              | c3 # r4 \<Rightarrow>
                                  if c3 = CHR '','' then
                                    map_option (\<lambda>(ms, r'). ((k, v) # ms, r'))
                                      (parseMembers fuel depth r4)
                                  else if c3 = CHR ''}'' then Some ([(k, v)], r4)
                                  else None))
                      else None))
          else None)"

definition parseJSON :: "string \<Rightarrow> json option" where
  "parseJSON data =
     (case parseValue (Suc (length data + length data)) 10000 data of
        None \<Rightarrow> None
      | Some (v, r) \<Rightarrow> if skipWS r = [] then Some v else None)"

text \<open>\<open>strconv.ParseInt(lit, 10, 64)\<close> on a JSON number literal: an optional minus sign
  and decimal digits, within the range of \<open>int64\<close>.\<close>

definition decimalValue :: "string \<Rightarrow> int" where
  "decimalValue ds = foldl (\<lambda>a c. a * 10 + (int (of_char c) - 48)) 0 ds"

definition ParseInt :: "string \<Rightarrow> int64 option" where
  "ParseInt lit =
     (let neg = (take 1 lit = ''-''); ds = (if neg then drop 1 lit else lit)
      in if ds = [] \<or> \<not> list_all isDigit ds then None
         else if neg then
           (if decimalValue ds \<le> 2 ^ 63 then Some (word_of_int (- decimalValue ds)) else None)
         else
           (if decimalValue ds < 2 ^ 63 then Some (word_of_int (decimalValue ds)) else None))"

text \<open>
  The client's \<open>DownloadState\<close>. A Go map may be nil: \<open>None\<close> is the nil map, which
  \<open>json.Unmarshal\<close> stores for the JSON value \<open>null\<close>.
\<close>

record DownloadState =
  Files :: "(string, int64) fmap option"

text \<open>
  \<open>json.Unmarshal(data, &state)\<close>. Nothing is decoded from a document with a syntax error.
  Otherwise the members of the top-level object whose key matches the field name
  \<open>files\<close> (without regard to case; U+017F and U+212A fold to \<open>S\<close> and \<open>K\<close>) are decoded
  into the map: \<open>null\<close> makes the map nil, an object stores each member, a value that is
  not an \<open>int64\<close> number being stored as 0, and any other value leaves the map as it is.
  The caller discards the error, so only the state is returned.
\<close>

definition decodeInt :: "json \<Rightarrow> int64" where
  "decodeInt v =
     (case v of
        JNumber lit \<Rightarrow> (case ParseInt lit of None \<Rightarrow> 0 | Some n \<Rightarrow> n)
      | _ \<Rightarrow> 0)"

definition decodeFiles ::
  "json \<Rightarrow> (string, int64) fmap option \<Rightarrow> (string, int64) fmap option" where
  "decodeFiles v cur =
     (case v of
        JNull \<Rightarrow> None
      | JObject ms \<Rightarrow>
          Some (foldl (\<lambda>m (k, x). fmupd k (decodeInt x) m)
                  (case cur of None \<Rightarrow> fmempty | Some m \<Rightarrow> m) ms)
      | _ \<Rightarrow> cur)"

function foldName :: "string \<Rightarrow> string" where
  "foldName [] = []"
| "foldName (c # cs) =
     (if take 2 (c # cs) = [CHR 0xC5, CHR 0xBF] then CHR ''S'' # foldName (drop 1 cs)
      else if take 3 (c # cs) = [CHR 0xE2, CHR 0x84, CHR 0xAA] then CHR ''K'' # foldName (drop 2 cs)
      else (if CHR ''a'' \<le> c \<and> c \<le> CHR ''z'' then char_of (of_char c - (32::nat)) else c)
             # foldName cs)"
  by pat_completeness auto

termination
  by (relation "measure length") auto

definition decodeState :: "json \<Rightarrow> DownloadState \<Rightarrow> DownloadState" where
  "decodeState v state =
     (case v of
        JObject ms \<Rightarrow>
          foldl (\<lambda>st (k, x).
                   if foldName k = ''FILES'' then st\<lparr>Files := decodeFiles x (Files st)\<rparr> else st)
            state ms
      | _ \<Rightarrow> state)"

definition Unmarshal :: "string \<Rightarrow> DownloadState \<Rightarrow> DownloadState" where
  "Unmarshal data state =
     (case parseJSON data of None \<Rightarrow> state | Some v \<Rightarrow> decodeState v state)"

text \<open>\<open>json.Marshal(state)\<close>: the keys of the map are written in sorted order; a nil map
  is written \<open>null\<close>. It never fails on this type.\<close>

fun joinComma :: "string list \<Rightarrow> string" where
  "joinComma [] = []"
| "joinComma [e] = e"
| "joinComma (e # es) = e @ CHR '','' # joinComma es"

definition quote :: "string \<Rightarrow> string" where
  "quote s = dq # encodeString s @ [dq]"

definition member :: "(string, int64) fmap \<Rightarrow> string \<Rightarrow> string" where
  "member m k = quote k @ CHR '':'' # FormatInt (case fmlookup m k of None \<Rightarrow> 0 | Some n \<Rightarrow> n)"

definition Marshal :: "DownloadState \<Rightarrow> string" where
  "Marshal state =
     CHR ''{'' # quote ''files'' @ CHR '':'' #
       (case Files state of
          None \<Rightarrow> ''null''
        | Some m \<Rightarrow>
            CHR ''{'' # joinComma (map (member m) (sorted_list_of_fset (fmdom m))) @ ''}'')
       @ ''}''"

text \<open>The ledger of the specification's example.\<close>

definition ledgerX :: DownloadState where
  "ledgerX = \<lparr>Files = Some (fmupd ''x'' 100 fmempty)\<rparr>"

section \<open>The client (\<open>loadDownloadState\<close>, \<open>saveDownloadState\<close>, \<open>downloadFile\<close>)\<close>

text \<open>
  The client's disk maps a file to its contents. \<open>resolve\<close> is the file the operating
  system opens for a path (two paths may name one file). Only regular files are tracked:
  \<open>os.MkdirAll\<close> creates directories and changes no file. What the environment answers
  during one call is an input: whether reading the ledger, building the request,
  creating the directories or creating the file fails, the response of the server if
  one arrives, the number of bytes after which \<open>io.Copy\<close> fails if it does, and how the
  write of the ledger ends.
\<close>

type_synonym localfs = "string \<rightharpoonup> string"

record config =
  serverURL :: string
  savePath :: string
  resumeFile :: string
  resolve :: "string \<Rightarrow> string"

record httpResponse =
  StatusCode :: int
  ContentLength :: int64
  Body :: string

datatype write_outcome = WriteOK | OpenFails | WriteStops nat

record env =
  readFileFails :: bool
  newRequestFails :: bool
  doResult :: "httpResponse option"
  mkdirAllFails :: bool
  createFails :: bool
  copyStops :: "nat option"
  writeResult :: write_outcome

text \<open>\<open>os.ReadFile\<close> and \<open>os.WriteFile\<close>; a write that fails may leave a truncated
  file.\<close>

definition ReadFile :: "config \<Rightarrow> env \<Rightarrow> localfs \<Rightarrow> string \<Rightarrow> string option" where
  "ReadFile cfg e fs name = (if readFileFails e then None else fs (resolve cfg name))"

definition WriteFile :: "config \<Rightarrow> env \<Rightarrow> localfs \<Rightarrow> string \<Rightarrow> string \<Rightarrow> localfs" where
  "WriteFile cfg e fs name data =
     (case writeResult e of
        WriteOK \<Rightarrow> fs(resolve cfg name \<mapsto> data)
      | OpenFails \<Rightarrow> fs
      | WriteStops n \<Rightarrow> fs(resolve cfg name \<mapsto> take n data))"

definition loadDownloadState :: "config \<Rightarrow> env \<Rightarrow> localfs \<Rightarrow> DownloadState" where
  "loadDownloadState cfg e fs =
     (let state = \<lparr>Files = Some fmempty\<rparr>
      in case ReadFile cfg e fs (resumeFile cfg) of
           None \<Rightarrow> state
         | Some data \<Rightarrow> Unmarshal data state)"

definition saveDownloadState :: "config \<Rightarrow> env \<Rightarrow> localfs \<Rightarrow> DownloadState \<Rightarrow> localfs" where
  "saveDownloadState cfg e fs state = WriteFile cfg e fs (resumeFile cfg) (Marshal state)"

text \<open>
  \<open>downloadFile\<close> returns nothing; \<open>outcome\<close> names the return it takes. \<open>transfer\<close>
  is the function from the request to the size check (lines 241 to 303), and
  \<open>downloadFile\<close> adds the ledger: loaded first (line 239), written after a completed
  transfer (lines 305 and 306), where the assignment to a nil map panics.
\<close>

datatype outcome =
    RequestFailed | TransportFailed | BadStatus int | MkdirFailed | Skipped
  | CreateFailed | CopyFailed | SizeMismatch | Downloaded int64 | Panicked

definition transfer :: "config \<Rightarrow> env \<Rightarrow> localfs \<Rightarrow> string \<Rightarrow> localfs \<times> outcome" where
  "transfer cfg e fs filePath =
     (if newRequestFails e then (fs, RequestFailed)
      else
        (case doResult e of
           None \<Rightarrow> (fs, TransportFailed)
         | Some resp \<Rightarrow>
             if StatusCode resp \<noteq> 200 then (fs, BadStatus (StatusCode resp))
             else
               (let totalSize = ContentLength resp
                in if mkdirAllFails e then (fs, MkdirFailed)
                   else
                     (let fileName = resolve cfg (Join [savePath cfg, filePath])
                      in if (case fs fileName of
                               None \<Rightarrow> False
                             | Some content \<Rightarrow>
                                 0 <s totalSize \<and> of_nat (length content) = totalSize)
                         then (fs, Skipped)
                         else if createFails e then (fs, CreateFailed)
                         else
                           (case copyStops e of
                              Some n \<Rightarrow> (fs(fileName \<mapsto> take n (Body resp)), CopyFailed)
                            | None \<Rightarrow>
                                (let written = of_nat (length (Body resp))
                                 in if 0 <s totalSize \<and> written \<noteq> totalSize
                                    then (fs(fileName \<mapsto> Body resp), SizeMismatch)
                                    else (fs(fileName \<mapsto> Body resp), Downloaded written)))))))"

definition downloadFile :: "config \<Rightarrow> env \<Rightarrow> localfs \<Rightarrow> string \<Rightarrow> localfs \<times> outcome" where
  "downloadFile cfg e fs filePath =
     (let state = loadDownloadState cfg e fs
      in case transfer cfg e fs filePath of
           (fs', Downloaded written) \<Rightarrow>
             (case Files state of
                None \<Rightarrow> (fs', Panicked)
              | Some m \<Rightarrow>
                  (saveDownloadState cfg e fs' (state\<lparr>Files := Some (fmupd filePath written m)\<rparr>),
                   Downloaded written))
         | r \<Rightarrow> r)"

section \<open>Reference notions for the client's claims\<close>

text \<open>The bytes that follow a number in the text \<open>json.Marshal\<close> writes, and the value
  written for a key.\<close>

definition endsNumber :: "char \<Rightarrow> bool" where
  "endsNumber c = (c = CHR '','' \<or> c = CHR ''}'')"

definition val :: "(string, int64) fmap \<Rightarrow> string \<Rightarrow> int64" where
  "val m k = (case fmlookup m k of None \<Rightarrow> 0 | Some n \<Rightarrow> n)"

text \<open>The paths recorded in a ledger.\<close>

definition ledgerKeys :: "DownloadState \<Rightarrow> string set" where
  "ledgerKeys state = (case Files state of None \<Rightarrow> {} | Some m \<Rightarrow> fmdom' m)"

text \<open>The default flags of the client, with \<open>filepath.Clean\<close> for the resolution of
  a path, and an environment in which nothing fails.\<close>

definition defaultConfig :: config where
  "defaultConfig =
     \<lparr>serverURL = ''http://localhost:8080'', savePath = ''.'',
      resumeFile = ''.download_state.json'', resolve = Clean\<rparr>"

definition quietEnv :: env where
  "quietEnv =
     \<lparr>readFileFails = False, newRequestFails = False, doResult = None, mkdirAllFails = False,
      createFails = False, copyStops = None, writeResult = WriteOK\<rparr>"

text \<open>The local file of a download, the ledger file, and the ledger that
  \<open>loadDownloadState\<close> starts from.\<close>

definition target :: "config \<Rightarrow> string \<Rightarrow> string" where
  "target cfg filePath = resolve cfg (Join [savePath cfg, filePath])"

definition ledgerPath :: "config \<Rightarrow> string" where
  "ledgerPath cfg = resolve cfg (resumeFile cfg)"

definition emptyLedger :: DownloadState where
  "emptyLedger = \<lparr>Files = Some fmempty\<rparr>"

text \<open>
  The test of lines 277 to 283 for a local copy that makes \<open>downloadFile\<close> skip, and the
  runs in which the transfer is carried to its end: the request is built and answered
  with status 200, the directories and the file are created, no local copy makes it
  skip, the body is copied in full, and a size announced above zero is the number of
  bytes written.
\<close>

definition upToDate :: "config \<Rightarrow> localfs \<Rightarrow> string \<Rightarrow> httpResponse \<Rightarrow> bool" where
  "upToDate cfg fs filePath resp =
     (case fs (target cfg filePath) of
        None \<Rightarrow> False
      | Some content \<Rightarrow>
          0 <s ContentLength resp \<and> of_nat (length content) = ContentLength resp)"

definition completes :: "config \<Rightarrow> env \<Rightarrow> localfs \<Rightarrow> string \<Rightarrow> httpResponse \<Rightarrow> bool" where
  "completes cfg e fs filePath resp =
     (\<not> newRequestFails e \<and> doResult e = Some resp \<and> StatusCode resp = 200
      \<and> \<not> mkdirAllFails e \<and> \<not> upToDate cfg fs filePath resp \<and> \<not> createFails e
      \<and> copyStops e = None
      \<and> \<not> (0 <s ContentLength resp \<and> of_nat (length (Body resp)) \<noteq> ContentLength resp))"

text \<open>Example data: the text of the example ledger, a ledger with a path that is not
  valid UTF-8 and its text, an environment in which the server answers 200 with a given
  \<open>Content-Length\<close> and body, and a disk holding the ledger and a file \<open>a.txt\<close>.\<close>

definition ledgerText :: string where
  "ledgerText = CHR ''{'' # dq # ''files'' @ dq # '':{'' @ dq # ''x'' @ dq # '':100}}''"

definition badLedger :: DownloadState where
  "badLedger = \<lparr>Files = Some (fmupd [CHR 0xFF] 1 fmempty)\<rparr>"

definition respOf :: "int64 \<Rightarrow> string \<Rightarrow> env" where
  "respOf n body = quietEnv\<lparr>doResult := Some \<lparr>StatusCode = 200, ContentLength = n, Body = body\<rparr>\<rparr>"

definition badText :: string where
  "badText = CHR ''{'' # dq # ''files'' @ dq # '':{'' @ dq # bsl # ''ufffd'' @ dq # '':1}}''"

definition diskWithLedger :: localfs where
  "diskWithLedger = [''.download_state.json'' \<mapsto> ledgerText, ''a.txt'' \<mapsto> ''hello'']"


section \<open>Paths: splitting, cleaning and joining\<close>

lemma splitSep_nonempty: "splitSep s \<noteq> []"
  by (induction s) (auto split: list.splits)

lemma splitSep_nosep: "CHR ''/'' \<notin> set w \<Longrightarrow> splitSep w = [w]"
  by (induction w) auto

lemma splitSep_append: "splitSep (a @ CHR ''/'' # b) = splitSep a @ splitSep b"
  by (induction a) (auto split: list.splits simp: splitSep_nonempty)

lemma splitSep_joinSep:
  "list_all validName es \<Longrightarrow> es \<noteq> [] \<Longrightarrow> splitSep (joinSep es) = es"
proof (induction es rule: joinSep.induct)
  case 1
  then show ?case by simp
next
  case (2 e)
  then show ?case by (simp add: validName_def splitSep_nosep)
next
  case (3 e v va)
  then show ?case by (simp add: validName_def splitSep_nosep splitSep_append)
qed

lemma filter_valid: "list_all validName es \<Longrightarrow> filter (\<lambda>e. e \<noteq> []) es = es"
  by (induction es) (auto simp: validName_def)

lemma pathElems_absOf: "list_all validName es \<Longrightarrow> pathElems (absOf es) = es"
  by (cases "es = []") (simp_all add: pathElems_def absOf_def splitSep_joinSep filter_valid)

lemma pathElems_append: "pathElems (a @ CHR ''/'' # b) = pathElems a @ pathElems b"
  by (simp add: pathElems_def splitSep_append)

lemma pathElems_name: "validName name \<Longrightarrow> pathElems name = [name]"
  by (simp add: pathElems_def validName_def splitSep_nosep)

lemma cleanElems_filter:
  "cleanElems r out (filter (\<lambda>e. e \<noteq> []) xs) = cleanElems r out xs"
  by (induction r out xs rule: cleanElems.induct) (auto split: list.splits)

lemma cleanElems_valid: "list_all validName es \<Longrightarrow> cleanElems r out es = rev out @ es"
  by (induction es arbitrary: out) (auto simp: validName_def)

lemma Clean_rooted:
  "HasPrefix p ''/'' \<Longrightarrow> Clean p = CHR ''/'' # joinSep (cleanElems True [] (pathElems p))"
  by (simp add: Clean_def pathElems_def cleanElems_filter)

lemma Clean_absOf:
  assumes "list_all validName es"
  shows "Clean (absOf es) = absOf es"
proof -
  have "HasPrefix (absOf es) ''/''"
    by (simp add: HasPrefix_def absOf_def)
  then have "Clean (absOf es) = CHR ''/'' # joinSep (cleanElems True [] (pathElems (absOf es)))"
    by (rule Clean_rooted)
  also have "cleanElems True [] (pathElems (absOf es)) = es"
    using assms by (simp add: pathElems_absOf cleanElems_valid)
  finally show ?thesis
    by (simp add: absOf_def)
qed

lemma Join_absOf:
  assumes "list_all validName es" and "validName name"
  shows "Join [absOf es, name] = absOf (es @ [name])"
proof -
  have "Join [absOf es, name] = Clean (absOf es @ CHR ''/'' # name)"
    by (simp add: Join_def absOf_def)
  also have "\<dots> = CHR ''/'' # joinSep (cleanElems True [] (pathElems (absOf es @ CHR ''/'' # name)))"
    by (rule Clean_rooted) (simp add: HasPrefix_def absOf_def)
  also have "pathElems (absOf es @ CHR ''/'' # name) = es @ [name]"
    using assms by (simp add: pathElems_append pathElems_absOf pathElems_name)
  also have "cleanElems True [] (es @ [name]) = es @ [name]"
    using assms by (simp add: cleanElems_valid)
  finally show ?thesis by (simp add: absOf_def)
qed

lemma stripCommon_Nil: "stripCommon [] ts = ([], ts)"
  by (cases ts) simp_all

lemma stripCommon_prefix: "stripCommon root (root @ sub) = ([], sub)"
  by (induction root) (simp_all add: stripCommon_Nil)

lemma absOf_inj:
  "list_all validName a \<Longrightarrow> list_all validName b \<Longrightarrow> absOf a = absOf b \<Longrightarrow> a = b"
  by (metis pathElems_absOf)

lemma Rel_absOf:
  assumes "list_all validName root" and "list_all validName sub" and "sub \<noteq> []"
  shows "Rel (absOf root) (absOf (root @ sub)) = joinSep sub"
proof -
  have v: "list_all validName (root @ sub)"
    using assms by simp
  have ne: "absOf (root @ sub) \<noteq> absOf root"
    using absOf_inj [OF v assms(1)] assms(3) by auto
  have nd: "absOf root \<noteq> ''.''"
    by (simp add: absOf_def)
  have hp: "HasPrefix (absOf root) ''/''" "HasPrefix (absOf (root @ sub)) ''/''"
    by (simp_all add: HasPrefix_def absOf_def)
  show ?thesis
    using ne nd hp assms
    by (simp add: Rel_def Clean_absOf [OF v] Clean_absOf [OF assms(1)] Let_def
        pathElems_absOf [OF v] pathElems_absOf [OF assms(1)] stripCommon_prefix)
qed

lemma joinSep_append:
  "a \<noteq> [] \<Longrightarrow> b \<noteq> [] \<Longrightarrow> joinSep (a @ b) = joinSep a @ CHR ''/'' # joinSep b"
  by (induction a rule: joinSep.induct) (auto, cases b, auto)

lemma HasPrefix_under: "HasPrefix (absOf (root @ rel)) (absOf root)"
proof (cases "root = [] \<or> rel = []")
  case True
  then show ?thesis by (auto simp: absOf_def HasPrefix_def)
next
  case False
  then have "absOf (root @ rel) = absOf root @ CHR ''/'' # joinSep rel"
    by (simp add: absOf_def joinSep_append)
  then show ?thesis by (simp add: HasPrefix_def)
qed

section \<open>The walk of the \<open>/list\<close> handler\<close>

lemma walk_records:
  "list_all validName root \<Longrightarrow> list_all validName sub \<Longrightarrow> sub \<noteq> [] \<Longrightarrow> wfNode n \<Longrightarrow>
     walk (absOf root) (absOf (root @ sub)) n files =
       (if readable n then Some (files @ records sub n) else None)"
  "list_all validName root \<Longrightarrow> list_all validName sub \<Longrightarrow> wfEntries es \<Longrightarrow>
     walkNames (absOf root) (absOf (root @ sub)) es files =
       (if readableIn es then Some (files @ recordsIn sub es) else None)"
proof (induction n and es arbitrary: sub files and sub files rule: wfNode_wfEntries.induct)
  case (1 es)
  then show ?case by simp
next
  case (2 c)
  then show ?case by (simp add: Rel_absOf)
next
  case 3
  then show ?case by simp
next
  case 4
  then show ?case by simp
next
  case 5
  then show ?case by simp
next
  case (6 name n es)
  have j: "Join [absOf (root @ sub), name] = absOf (root @ (sub @ [name]))"
    using 6 by (simp add: Join_absOf)
  have w: "walk (absOf root) (absOf (root @ (sub @ [name]))) n files =
       (if readable n then Some (files @ records (sub @ [name]) n) else None)"
    using 6 by (intro "6.IH"(1)) simp_all
  show ?case
    using 6 by (simp add: j w del: append_assoc)
qed

lemma wfEntries_map_of: "wfEntries es \<Longrightarrow> map_of es c = Some n \<Longrightarrow> wfNode n"
  by (induction es) (auto split: if_splits)

lemma wfNode_lookup: "wfNode fs \<Longrightarrow> lookup fs cs = Some n \<Longrightarrow> wfNode n"
  by (induction fs cs rule: lookup.induct) (auto split: option.splits dest: wfEntries_map_of)

lemma wfNode_Stat: "wfNode fs \<Longrightarrow> Stat fs p = Some n \<Longrightarrow> wfNode n"
  by (auto simp: Stat_def split: option.splits fsnode.splits dest: wfNode_lookup)

lemma Stat_not_StatErr: "Stat fs p \<noteq> Some StatErr"
  by (auto simp: Stat_def split: option.splits fsnode.splits)

lemma walk_directory:
  assumes "list_all validName root" and "list_all validName rel" and "wfNode n"
    and "IsDir n" and "n \<noteq> StatErr"
  shows "walk (absOf root) (absOf (root @ rel)) n [] =
           (if readable n then Some (records rel n) else None)"
  using assms walk_records(2) [of root rel _ "[]"] by (cases n) simp_all

section \<open>Claims about the server\<close>

text \<open>
  C1. The claim: every client path that resolves outside the root is rejected with 403
  by both handlers, containment being decided by the separator-terminated rule, so that
  a sibling directory sharing the root's string prefix is rejected. The handlers compare
  with \<open>strings.HasPrefix(fullPath, absPath)\<close>, without the separator: with the root
  \<open>/data/a\<close>, the parameters \<open>/..%2Fab%2Fsecret.txt\<close> and \<open>/..%2Fab\<close> resolve to
  \<open>/data/ab/secret.txt\<close> and \<open>/data/ab\<close>, outside the root by the separator rule, and
  the handlers answer 200 with the sibling's file and listing instead of 403.
\<close>

theorem sibling_directory_not_rejected:
  "QueryUnescape ''..%2Fab%2Fsecret.txt'' = Some ''../ab/secret.txt''
   \<and> Join [''/data/a'', ''../ab/secret.txt''] = ''/data/ab/secret.txt''
   \<and> \<not> withinRoot ''/data/a'' ''/data/ab/secret.txt''
   \<and> downloadHandler siblingFS ''/data/a'' ''/..%2Fab%2Fsecret.txt''
        = FileStream 200 [(''Content-Length'', ''3'')] ''top''
   \<and> QueryUnescape ''..%2Fab'' = Some ''../ab''
   \<and> Join [''/data/a'', ''../ab''] = ''/data/ab''
   \<and> \<not> withinRoot ''/data/a'' ''/data/ab''
   \<and> listHandler siblingFS ''/data/a'' ''/..%2Fab''
        = JSONFiles [\<lparr>Path = ''../ab/secret.txt'', Size = 3\<rparr>]"
  by code_simp

text \<open>
  C4. For a request to \<open>/list\<close> that resolves to the path \<open>root/rel\<close> under the root of a
  well-formed tree: a path that does not exist is answered 404; a regular file 400; a
  directory whose subtree is walked without an I/O error 200 with exactly the records of
  \<open>records\<close>: one per regular file of the subtree, none for a directory, each with the
  path relative to the root and the size the walk observed; and a directory whose
  subtree holds an I/O error 500, with no record at all.
\<close>

theorem list_directory:
  assumes "list_all validName root" and "list_all validName rel" and "wfNode fs"
    and "param \<noteq> []" and "QueryUnescape (drop 1 param) = Some decodedPath"
    and "Join [absOf root, decodedPath] = absOf (root @ rel)"
  shows "(Stat fs (absOf (root @ rel)) = None \<longrightarrow>
            listHandler fs (absOf root) param = JSONError 404 NotFound)
       \<and> (\<forall>c. Stat fs (absOf (root @ rel)) = Some (File c) \<longrightarrow>
            listHandler fs (absOf root) param = JSONError 400 NotDirectory)
       \<and> (\<forall>n. Stat fs (absOf (root @ rel)) = Some n \<and> IsDir n \<and> readable n \<longrightarrow>
            listHandler fs (absOf root) param = JSONFiles (records rel n))
       \<and> (\<forall>n. Stat fs (absOf (root @ rel)) = Some n \<and> IsDir n \<and> \<not> readable n \<longrightarrow>
            listHandler fs (absOf root) param = JSONError 500 WalkError)"
proof -
  have w: "walk (absOf root) (absOf (root @ rel)) n [] =
      (if readable n then Some (records rel n) else None)"
    if "Stat fs (absOf (root @ rel)) = Some n" "IsDir n" for n
    using that assms(1-3) Stat_not_StatErr [of fs "absOf (root @ rel)"]
    by (intro walk_directory) (auto dest: wfNode_Stat)
  show ?thesis
    using assms(4-6) w
    by (auto simp: listHandler_def HasPrefix_under StatusBadRequest_def StatusNotFound_def
        StatusInternalServerError_def)
qed

theorem list_directory_witness:
  "listHandler exampleFS ''/srv'' ''/nonexistent'' = JSONError 404 NotFound
   \<and> listHandler exampleFS ''/srv'' ''/a'' = JSONError 400 NotDirectory
   \<and> listHandler exampleFS ''/srv'' ''/'' =
        JSONFiles [\<lparr>Path = ''a'', Size = 10\<rparr>, \<lparr>Path = ''b/c'', Size = 20\<rparr>]
   \<and> listHandler exampleFS ''/srv'' ''/b'' = JSONFiles [\<lparr>Path = ''b/c'', Size = 20\<rparr>]
   \<and> listHandler exampleFS ''/bad'' ''/'' = JSONError 500 WalkError"
proof -
  have v: "list_all validName [''srv'']" "list_all validName [''nonexistent'']"
    "list_all validName [''a'']" "list_all validName [''b'']" "list_all validName [''bad'']"
    "list_all validName []"
    by (simp_all add: validName_def)
  have wf: "wfNode exampleFS"
    by (simp add: exampleFS_def validName_def)
  have q: "QueryUnescape (drop 1 ''/nonexistent'') = Some ''nonexistent''"
    "QueryUnescape (drop 1 ''/a'') = Some ''a''"
    "QueryUnescape (drop 1 ''/b'') = Some ''b''"
    "QueryUnescape (drop 1 ''/'') = Some []"
    by simp_all
  have j: "Join [absOf [''srv''], ''nonexistent''] = absOf ([''srv''] @ [''nonexistent''])"
    "Join [absOf [''srv''], ''a''] = absOf ([''srv''] @ [''a''])"
    "Join [absOf [''srv''], ''b''] = absOf ([''srv''] @ [''b''])"
    by (simp_all add: Join_absOf validName_def)
  have j0: "Join [absOf [''srv''], []] = absOf ([''srv''] @ [])"
    "Join [absOf [''bad''], []] = absOf ([''bad''] @ [])"
    by code_simp+
  have s: "Stat exampleFS (absOf ([''srv''] @ [''nonexistent''])) = None"
    "Stat exampleFS (absOf ([''srv''] @ [''a''])) = Some (File ''0123456789'')"
    "Stat exampleFS (absOf ([''srv''] @ [''b''])) =
       Some (Dir [(''c'', File ''01234567890123456789'')])"
    "Stat exampleFS (absOf ([''srv''] @ [])) =
       Some (Dir [(''a'', File ''0123456789''),
                  (''b'', Dir [(''c'', File ''01234567890123456789'')])])"
    "Stat exampleFS (absOf ([''bad''] @ [])) = Some (Dir [(''d'', File ''x''), (''e'', DirErr)])"
    by code_simp+
  have a: "absOf [''srv''] = ''/srv''" "absOf [''bad''] = ''/bad''"
    by (simp_all add: absOf_def)
  show ?thesis
    using list_directory [OF v(1) v(2) wf _ q(1) j(1)]
      list_directory [OF v(1) v(3) wf _ q(2) j(2)]
      list_directory [OF v(1) v(4) wf _ q(3) j(3)]
      list_directory [OF v(1) v(6) wf _ q(4) j0(1)]
      list_directory [OF v(5) v(6) wf _ q(4) j0(2)] s
    by (simp add: a)
qed




section \<open>The worker pool\<close>

lemma live_update:
  assumes "i < length ws"
  shows "live (ws[i := x]) + (if ws ! i \<noteq> Exited then 1 else 0) =
         live ws + (if x \<noteq> Exited then 1 else 0)"
proof -
  have "live ws = live (take i ws @ ws ! i # drop (Suc i) ws)"
    using id_take_nth_drop [OF assms] by simp
  moreover have "live (ws[i := x]) = live (take i ws @ x # drop (Suc i) ws)"
    using upd_conv_take_nth_drop [OF assms] by simp
  ultimately show ?thesis
    by (simp add: live_def)
qed

lemma live_zero: "live ws = 0 \<Longrightarrow> i < length ws \<Longrightarrow> ws ! i = Exited"
  unfolding live_def by (auto simp: filter_empty_conv)

lemma live_append_Idle: "live (ws @ [Idle]) = Suc (live ws)"
  by (simp add: live_def)

lemma orchInv_init: "orchInv concurrency files (init files)"
  by (simp add: orchInv_def init_def live_def)

lemma orchInv_Main:
  assumes "orchInv concurrency files s" and "fire concurrency files Main s = Some s'"
  shows "orchInv concurrency files s'"
proof (cases "pc s")
  case (Spawning i)
  then show ?thesis
    using assms by (auto simp: orchInv_def live_append_Idle split: if_splits)
next
  case (Sending fs)
  then show ?thesis
    using assms by (cases fs) (auto simp: orchInv_def split: if_splits)
next
  case Waiting
  then show ?thesis
    using assms by (auto simp: orchInv_def split: if_splits)
next
  case Returned
  then show ?thesis
    using assms by (simp split: if_splits)
qed

lemma orchInv_call_ends:
  assumes "orchInv concurrency files s" and "i < length (workers s)"
    and "workers s ! i = Busy f" and "x \<noteq> Exited"
  shows "orchInv concurrency files (s\<lparr>workers := (workers s)[i := x]\<rparr>)"
proof -
  have l: "live ((workers s)[i := x]) = live (workers s)"
    using live_update [OF assms(2), of x] assms(3,4) by simp
  have e: "Exited \<in> set ((workers s)[i := x]) \<Longrightarrow> Exited \<in> set (workers s)"
    using set_update_subset_insert [of "workers s" i x] assms(4) by auto
  show ?thesis
    using assms(1) l e unfolding orchInv_def
    by (auto split: mainpc.splits)
qed

lemma orchInv_Worker:
  assumes "orchInv concurrency files s" and "fire concurrency files (Worker i) s = Some s'"
  shows "orchInv concurrency files s'"
proof -
  have i: "i < length (workers s)"
    using assms(2) by (simp split: if_splits)
  show ?thesis
  proof (cases "workers s ! i")
    case Idle
    show ?thesis
    proof (cases "tasks s")
      case Nil
      with Idle i assms have c: "closed s"
        and s': "s' = s\<lparr>workers := (workers s)[i := Exited], wg := wg s - 1\<rparr>"
        by (auto split: if_splits)
      have "live ((workers s)[i := Exited]) + 1 = live (workers s)"
        using live_update [OF i, of Exited] Idle by simp
      moreover have "pc s \<noteq> Returned"
        using assms(1) live_zero [of "workers s" i] i Idle by (auto simp: orchInv_def)
      ultimately show ?thesis
        using assms(1) c Nil unfolding s' orchInv_def
        by (auto split: mainpc.splits)
    next
      case (Cons f q)
      with Idle i assms have s': "s' = s\<lparr>tasks := q, workers := (workers s)[i := Busy f],
                          calls := calls s @ [Path f]\<rparr>"
        by (auto split: if_splits)
      have l: "live ((workers s)[i := Busy f]) = live (workers s)"
        using live_update [OF i, of "Busy f"] Idle by simp
      have e: "Exited \<notin> set (workers s)"
        using assms(1) Cons by (auto simp: orchInv_def)
      then have e': "Exited \<notin> set ((workers s)[i := Busy f])"
        using set_update_subset_insert [of "workers s" i "Busy f"] by auto
      have "pc s \<noteq> Returned"
        using assms(1) live_zero [of "workers s" i] i Idle by (auto simp: orchInv_def)
      then show ?thesis
        using assms(1) Cons l e' unfolding s' orchInv_def
        by (auto split: mainpc.splits)
    qed
  next
    case (Busy f)
    with i assms have s': "s' = s\<lparr>workers := (workers s)[i := Idle]\<rparr>"
      by (auto split: if_splits)
    show ?thesis
      unfolding s' using assms(1) i Busy by (intro orchInv_call_ends) simp_all
  next
    case Exited
    then show ?thesis
      using assms i by (simp split: if_splits)
  next
    case (Stalled f)
    then show ?thesis
      using assms i by (simp split: if_splits)
  next
    case (Aborted f)
    then show ?thesis
      using assms i by (simp split: if_splits)
  qed
qed

lemma fire_Stalls:
  assumes "fire concurrency files (Stalls i) s = Some s'"
  obtains f where "i < length (workers s)" and "workers s ! i = Busy f"
    and "s' = s\<lparr>workers := (workers s)[i := Stalled f]\<rparr>"
  using assms by (auto split: if_splits worker.splits)

lemma fire_Panics:
  assumes "fire concurrency files (Panics i) s = Some s'"
  obtains f where "i < length (workers s)" and "workers s ! i = Busy f"
    and "s' = s\<lparr>workers := (workers s)[i := Aborted f]\<rparr>"
  using assms by (auto split: if_splits worker.splits)

lemma orchInv_fire:
  assumes "orchInv concurrency files s" and "fire concurrency files a s = Some s'"
  shows "orchInv concurrency files s'"
proof (cases a)
  case Main
  then show ?thesis
    using assms by (auto intro: orchInv_Main)
next
  case (Worker i)
  then show ?thesis
    using assms by (auto intro: orchInv_Worker)
next
  case (Stalls i)
  with assms(2) have "fire concurrency files (Stalls i) s = Some s'"
    by simp
  then obtain f where "i < length (workers s)" "workers s ! i = Busy f"
    "s' = s\<lparr>workers := (workers s)[i := Stalled f]\<rparr>"
    by (rule fire_Stalls)
  then show ?thesis
    using assms(1) by (simp add: orchInv_call_ends)
next
  case (Panics i)
  with assms(2) have "fire concurrency files (Panics i) s = Some s'"
    by simp
  then obtain f where "i < length (workers s)" "workers s ! i = Busy f"
    "s' = s\<lparr>workers := (workers s)[i := Aborted f]\<rparr>"
    by (rule fire_Panics)
  then show ?thesis
    using assms(1) by (simp add: orchInv_call_ends)
qed

lemma orchInv_run:
  "orchInv concurrency files s \<Longrightarrow> run concurrency files sched s = Some s' \<Longrightarrow>
     orchInv concurrency files s'"
  by (induction sched arbitrary: s) (auto split: option.splits dest: orchInv_fire)


lemma orchInv_reach:
  "run concurrency files sched (init files) = Some s \<Longrightarrow> orchInv concurrency files s"
  using orchInv_run [OF orchInv_init] .

lemma orchInv_count:
  assumes "orchInv concurrency files s"
  shows "length (calls s) + length (tasks s) + length (pending files (pc s)) = length files"
proof -
  have "size (mset (calls s) + mset (map Path (tasks s)) + mset (map Path (pending files (pc s))))
      = size (mset (map Path files))"
    using assms by (simp add: orchInv_def)
  then show ?thesis by simp
qed





















text \<open>A panic in the only worker's call ends the process before the second file is
  sent: nobody steps again.\<close>

lemma panic_ends_process:
  "run 1 [fileA, fileB] [Main, Main, Main, Worker 0, Panics 0] (init [fileA, fileB]) =
     Some \<lparr>pc = Sending [fileB], tasks = [], closed = False, capacity = 2, wg = 1,
           workers = [Aborted fileA], calls = [''a'']\<rparr>
   \<and> fire 1 [fileA, fileB] Main
        \<lparr>pc = Sending [fileB], tasks = [], closed = False, capacity = 2, wg = 1,
         workers = [Aborted fileA], calls = [''a'']\<rparr> = None"
  by (simp add: init_def fileA_def fileB_def ended_def)

text \<open>
  C9. The claim: every task is enqueued before any worker dequeues its first task. The
  workers are started before the sending loop, so with two files and one worker the
  worker is inside \<open>downloadFile\<close> for the first file while the second is still to be
  sent.
\<close>

theorem worker_starts_before_all_enqueued:
  "run 1 [fileA, fileB] [Main, Main, Main, Worker 0] (init [fileA, fileB]) =
     Some \<lparr>pc = Sending [fileB], tasks = [], closed = False, capacity = 2, wg = 1,
           workers = [Busy fileA], calls = [''a'']\<rparr>"
  by (simp add: init_def fileA_def fileB_def ended_def)

text \<open>
  C9, amended. While the main goroutine is in its sending loop, all \<open>concurrency\<close>
  workers have been started already, the capacity of the queue is the number of listed
  files, and the buffer is not full as long as a file is left to send: no send blocks.
\<close>

theorem enqueue_never_blocks:
  assumes "run concurrency files sched (init files) = Some s" and "pc s = Sending fs"
  shows "length (workers s) = nat concurrency \<and> capacity s = length files
       \<and> (fs \<noteq> [] \<longrightarrow> length (tasks s) < capacity s)"
proof -
  have inv: "orchInv concurrency files s"
    using assms(1) by (rule orchInv_reach)
  have c: "length (calls s) + length (tasks s) + length fs = length files"
    using orchInv_count [OF inv] assms(2) by simp
  have "length (tasks s) < length files" if "fs \<noteq> []"
  proof -
    have "0 < length fs"
      using that by simp
    then show ?thesis
      using c by linarith
  qed
  then show ?thesis
    using inv assms(2) by (simp add: orchInv_def)
qed

theorem enqueue_never_blocks_witness:
  "run 1 [fileA, fileB] [Main, Main, Main, Worker 0] (init [fileA, fileB]) =
     Some \<lparr>pc = Sending [fileB], tasks = [], closed = False, capacity = 2, wg = 1,
           workers = [Busy fileA], calls = [''a'']\<rparr>
   \<and> length [Busy fileA] = nat 1 \<and> (2::nat) = length [fileA, fileB] \<and> length ([]::FileInfo list) < 2"
proof -
  have r: "run 1 [fileA, fileB] [Main, Main, Main, Worker 0] (init [fileA, fileB]) =
     Some \<lparr>pc = Sending [fileB], tasks = [], closed = False, capacity = 2, wg = 1,
           workers = [Busy fileA], calls = [''a'']\<rparr>"
    by (simp add: init_def fileA_def fileB_def ended_def)
  show ?thesis
    using enqueue_never_blocks [OF r] r by simp
qed

section \<open>JSON: what is written is read back\<close>

declare encodeString.simps [simp del] unquote.simps [simp del] validUTF8.simps [simp del]
  foldName.simps [simp del] decimal.simps [simp del]
  parseValue.simps [simp del] parseElems.simps [simp del] parseMembers.simps [simp del]

lemma emit_Some [simp]: "emit out (Some (s, r)) = Some (out @ s, r)"
  by (simp add: emit_def)

lemma runeLen_le: "runeLen s \<le> length s"
  by (cases s) (auto simp: runeLen_def Let_def)

lemma runeLen_take:
  assumes "runeLen s \<noteq> 0"
  shows "runeLen (take (runeLen s) s @ Y) = runeLen s"
proof (cases s)
  case Nil
  with assms show ?thesis by (simp add: runeLen_def)
next
  case (Cons c cs)
  define n where "n = leadLen (of_char c)"
  show ?thesis
  proof (cases "n \<le> 1")
    case True
    then have r: "runeLen s = n"
      by (simp add: runeLen_def Cons n_def)
    with assms True have "n = 1" by simp
    then show ?thesis
      using r by (simp add: Cons runeLen_def n_def [symmetric])
  next
    case False
    with assms have l: "\<not> length cs < n - 1"
      and a: "accepts (of_char c) (hd cs)" and t: "list_all cont (take (n - 2) (tl cs))"
      and r: "runeLen s = n"
      by (auto simp: runeLen_def Cons n_def [symmetric] Let_def split: if_splits)
    have cs: "cs \<noteq> []"
      using l False by auto
    have tk: "take n s = c # take (n - 1) cs"
      using False by (cases n) (simp_all add: Cons)
    have h: "hd (take (n - 1) cs @ Y) = hd cs"
      using cs False by (cases cs; cases "n - 1") simp_all
    have tl: "take (n - 2) (tl (take (n - 1) cs @ Y)) = take (n - 2) (tl cs)"
    proof (cases cs)
      case Nil
      with cs show ?thesis by simp
    next
      case (Cons x xs)
      obtain m where m: "n - 1 = Suc m" "n - 2 = m"
        using False by (cases n; cases "n - 1") auto
      have "m \<le> length xs"
        using l m Cons by simp
      then show ?thesis
        using m by (simp add: Cons del: One_nat_def)
    qed
    have "runeLen (take (runeLen s) s @ Y) = runeLen (c # (take (n - 1) cs @ Y))"
      by (simp add: r tk)
    also have "\<dots> = n"
    proof -
      have len: "\<not> length (take (n - 1) cs @ Y) < n - 1"
        using l by simp
      show ?thesis
        by (simp only: runeLen_def list.case Let_def n_def [symmetric] h tl False len a t
            if_False if_True simp_thms)
    qed
    finally show ?thesis
      by (simp add: r)
  qed
qed

lemma hexDigit_unhex:
  assumes "n < 16"
  shows "ishex (hexDigit n)" and "unhex (hexDigit n) = n"
proof -
  have "15 = n \<or> 14 = n \<or> 13 = n \<or> 12 = n \<or> 11 = n \<or> 10 = n \<or> 9 = n \<or> 8 = n
      \<or> 7 = n \<or> 6 = n \<or> 5 = n \<or> 4 = n \<or> 3 = n \<or> 2 = n \<or> 1 = n \<or> 0 = n"
    using assms by presburger
  then show "ishex (hexDigit n)" and "unhex (hexDigit n) = n"
    by (elim disjE; simp add: hexDigit_def ishex_def unhex_def)+
qed

lemma getu4_byte:
  assumes "b < 256"
  shows "getu4 (CHR ''0'' # CHR ''0'' # hexDigit (b div 16) # hexDigit (b mod 16) # X) = Some b"
proof -
  have d: "b div 16 < 16" and m: "b mod 16 < 16"
    using assms by auto
  have z: "ishex CHR ''0''" "unhex CHR ''0'' = 0"
    by (simp_all add: ishex_def unhex_def)
  show ?thesis
    by (simp add: getu4_def z hexDigit_unhex [OF d] hexDigit_unhex [OF m])
qed

lemma encodeRune_ascii: "of_char c < (0x80::nat) \<Longrightarrow> encodeRune (of_char c) = [c]"
  by (simp add: encodeRune_def)

lemma unquote_safe:
  "htmlSafe c \<Longrightarrow> unquote (c # X) = emit [c] (unquote X)"
  by (subst unquote.simps) (auto simp: htmlSafe_def)

lemma unquote_short_escape:
  assumes "unescapeChar e = Some ch" and "e \<noteq> CHR ''u''"
  shows "unquote (bsl # e # X) = emit [ch] (unquote X)"
  using assms by (subst unquote.simps) simp

lemma unquote_u00:
  assumes "of_char c < (0x80::nat)"
  shows "unquote (bsl # CHR ''u'' # CHR ''0'' # CHR ''0'' # hexDigit (of_char c div 16)
           # hexDigit (of_char c mod 16) # X) = emit [c] (unquote X)"
proof -
  have b: "(of_char c :: nat) < 256"
    using assms by simp
  show ?thesis
    using assms
    by (subst unquote.simps) (simp add: getu4_byte [OF b] encodeRune_ascii)
qed

lemma unquote_escapeByte:
  assumes "of_char c < (0x80::nat)" and "\<not> htmlSafe c"
  shows "unquote (escapeByte c @ X) = emit [c] (unquote X)"
proof -
  consider "c = bsl" | "c = dq" | "c = CHR 0x08" | "c = CHR 0x0C" | "c = CHR 0x0A"
    | "c = CHR 0x0D" | "c = CHR 0x09"
    | "c \<noteq> bsl" "c \<noteq> dq" "c \<noteq> CHR 0x08" "c \<noteq> CHR 0x0C" "c \<noteq> CHR 0x0A"
      "c \<noteq> CHR 0x0D" "c \<noteq> CHR 0x09"
    by blast
  then show ?thesis
  proof cases
    case 8
    then show ?thesis
      using unquote_u00 [OF assms(1)] by (simp add: escapeByte_def)
  qed (simp_all add: escapeByte_def unquote_short_escape unescapeChar_def)
qed

lemma encodeRune_2028: "encodeRune 0x2028 = [CHR 0xE2, CHR 0x80, CHR 0xA8]"
  by (simp add: encodeRune_def replacementChar_def char_of_def bit_Suc_0_iff)

lemma encodeRune_2029: "encodeRune 0x2029 = [CHR 0xE2, CHR 0x80, CHR 0xA9]"
  by (simp add: encodeRune_def replacementChar_def char_of_def bit_Suc_0_iff)

lemma getu4_2028: "getu4 (CHR ''2'' # CHR ''0'' # CHR ''2'' # CHR ''8'' # X) = Some 0x2028"
  by (simp add: getu4_def ishex_def unhex_def)

lemma getu4_2029: "getu4 (CHR ''2'' # CHR ''0'' # CHR ''2'' # CHR ''9'' # X) = Some 0x2029"
  by (simp add: getu4_def ishex_def unhex_def)

lemma unquote_u2028:
  "unquote (bsl # ''u2028'' @ X) = emit [CHR 0xE2, CHR 0x80, CHR 0xA8] (unquote X)"
  by (subst unquote.simps) (simp add: getu4_2028 encodeRune_2028)

lemma unquote_u2029:
  "unquote (bsl # ''u2029'' @ X) = emit [CHR 0xE2, CHR 0x80, CHR 0xA9] (unquote X)"
  by (subst unquote.simps) (simp add: getu4_2029 encodeRune_2029)

lemma leadLen_ascii: "leadLen b = 1 \<longleftrightarrow> b < 0x80"
  by (simp add: leadLen_def)

lemma runeLen_ascii: "of_char c < (0x80::nat) \<Longrightarrow> runeLen (c # cs) = 1"
  by (simp add: runeLen_def leadLen_def)

lemma unquote_raw:
  assumes "\<not> of_char c < (0x80::nat)" and "runeLen (c # cs) \<noteq> 0"
  shows "unquote (take (runeLen (c # cs)) (c # cs) @ X) =
           emit (take (runeLen (c # cs)) (c # cs)) (unquote X)"
proof -
  define n where "n = runeLen (c # cs)"
  have n: "n \<noteq> 0" "n \<le> Suc (length cs)"
    using assms(2) runeLen_le [of "c # cs"] by (simp_all add: n_def)
  then obtain m where m: "n = Suc m"
    by (cases n) auto
  have t: "take n (c # cs) @ X = c # (take m cs @ X)"
    by (simp add: m)
  have r: "runeLen (c # (take m cs @ X)) = n"
    using runeLen_take [OF assms(2), of X] by (simp add: n_def [symmetric] t)
  have c: "c \<noteq> dq" "c \<noteq> bsl" "\<not> of_char c < (0x20::nat)"
    using assms(1) by auto
  have "unquote (c # (take m cs @ X)) =
      emit (take n (c # (take m cs @ X))) (unquote (drop n (c # (take m cs @ X))))"
    using c assms(1) n(1) by (subst unquote.simps) (simp add: r)
  moreover have "take n (c # (take m cs @ X)) = take n (c # cs)"
    using n(2) by (simp add: m)
  moreover have "drop n (c # (take m cs @ X)) = X"
    using n(2) by (simp add: m)
  ultimately show ?thesis
    by (simp add: n_def [symmetric] t)
qed

lemma runeLen_2028:
  "take 3 (c # cs) = [CHR 0xE2, CHR 0x80, x] \<Longrightarrow> x = CHR 0xA8 \<or> x = CHR 0xA9 \<Longrightarrow>
     runeLen (c # cs) = 3"
  by (cases cs; cases "tl cs") (auto simp: runeLen_def leadLen_def accepts_def cont_def)

lemma unquote_encodeString:
  "validUTF8 k \<Longrightarrow> unquote (encodeString k @ dq # rest) = Some (k, rest)"
proof (induction k rule: validUTF8.induct)
  case 1
  show ?case
    by (simp add: encodeString.simps unquote.simps)
next
  case (2 c cs)
  define n where "n = runeLen (c # cs)"
  have v: "n \<noteq> 0" "validUTF8 (drop n (c # cs))"
    using "2.prems" by (auto simp: validUTF8.simps n_def split: if_splits)
  have IH: "unquote (encodeString (drop n (c # cs)) @ dq # rest) = Some (drop n (c # cs), rest)"
    using "2.IH" v by (simp add: n_def)
  have nz: "runeLen (c # cs) \<noteq> 0"
    using v(1) by (simp add: n_def)
  show ?case
  proof (cases "of_char c < (0x80::nat)")
    case True
    then have n1: "n = 1"
      by (simp add: n_def runeLen_ascii)
    have e: "encodeString (c # cs) = (if htmlSafe c then [c] else escapeByte c) @ encodeString cs"
      using True by (subst encodeString.simps) simp
    show ?thesis
      using IH True by (simp add: e n1 unquote_safe unquote_escapeByte)
  next
    case False
    consider "take 3 (c # cs) = [CHR 0xE2, CHR 0x80, CHR 0xA8]"
      | "take 3 (c # cs) \<noteq> [CHR 0xE2, CHR 0x80, CHR 0xA8]"
        "take 3 (c # cs) = [CHR 0xE2, CHR 0x80, CHR 0xA9]"
      | "take 3 (c # cs) \<noteq> [CHR 0xE2, CHR 0x80, CHR 0xA8]"
        "take 3 (c # cs) \<noteq> [CHR 0xE2, CHR 0x80, CHR 0xA9]"
      by blast
    then show ?thesis
    proof cases
      case 1
      then have n3: "n = 3"
        by (simp add: n_def runeLen_2028)
      have e: "encodeString (c # cs) = bsl # ''u2028'' @ encodeString (drop 3 (c # cs))"
        by (subst encodeString.simps) (simp only: False 1 nz if_False if_True refl simp_thms)
      have i: "unquote (encodeString (drop 3 (c # cs)) @ dq # rest) = Some (drop 3 (c # cs), rest)"
        using IH by (simp only: n3)
      have "unquote ((bsl # ''u2028'' @ encodeString (drop 3 (c # cs))) @ dq # rest) =
          unquote (bsl # ''u2028'' @ (encodeString (drop 3 (c # cs)) @ dq # rest))"
        by simp
      also have "\<dots> = Some (take 3 (c # cs) @ drop 3 (c # cs), rest)"
        by (simp only: unquote_u2028 i emit_Some 1)
      finally show ?thesis
        by (simp only: e append_take_drop_id)
    next
      case 2
      then have n3: "n = 3"
        by (simp add: n_def runeLen_2028)
      have e: "encodeString (c # cs) = bsl # ''u2029'' @ encodeString (drop 3 (c # cs))"
        by (subst encodeString.simps)
          (simp only: False 2(1) nz if_False simp_thms, simp only: 2(2) if_True simp_thms)
      have i: "unquote (encodeString (drop 3 (c # cs)) @ dq # rest) = Some (drop 3 (c # cs), rest)"
        using IH by (simp only: n3)
      have "unquote ((bsl # ''u2029'' @ encodeString (drop 3 (c # cs))) @ dq # rest) =
          unquote (bsl # ''u2029'' @ (encodeString (drop 3 (c # cs)) @ dq # rest))"
        by simp
      also have "\<dots> = Some (take 3 (c # cs) @ drop 3 (c # cs), rest)"
        by (simp only: unquote_u2029 i emit_Some 2(2))
      finally show ?thesis
        by (simp only: e append_take_drop_id)
    next
      case 3
      have e: "encodeString (c # cs) = take n (c # cs) @ encodeString (drop n (c # cs))"
        by (subst encodeString.simps) (simp only: False 3 nz if_False if_True n_def simp_thms)
      have "unquote ((take n (c # cs) @ encodeString (drop n (c # cs))) @ dq # rest) =
          unquote (take n (c # cs) @ (encodeString (drop n (c # cs)) @ dq # rest))"
        by simp
      also have "\<dots> = Some (take n (c # cs) @ drop n (c # cs), rest)"
        using unquote_raw [OF False nz, of "encodeString (drop n (c # cs)) @ dq # rest"]
        by (simp only: n_def [symmetric] IH emit_Some)
      finally show ?thesis
        by (simp only: e append_take_drop_id)
    qed
  qed
qed

lemma digitChar_props:
  assumes "k < 10"
  shows "isDigit (digitChar k)" and "int (of_char (digitChar k)) - 48 = int k"
    and "digitChar k = CHR ''0'' \<longleftrightarrow> k = 0"
proof -
  have "9 = k \<or> 8 = k \<or> 7 = k \<or> 6 = k \<or> 5 = k \<or> 4 = k \<or> 3 = k \<or> 2 = k \<or> 1 = k \<or> 0 = k"
    using assms by presburger
  then show "isDigit (digitChar k)" and "int (of_char (digitChar k)) - 48 = int k"
    and "digitChar k = CHR ''0'' \<longleftrightarrow> k = 0"
    by (elim disjE; simp add: digitChar_def isDigit_def)+
qed

lemma decimal_nonempty: "decimal n \<noteq> []"
  by (subst decimal.simps) simp

lemma decimal_digits: "list_all isDigit (decimal n)"
proof (induction n rule: decimal.induct)
  case (1 n)
  show ?case
  proof (cases "n < 10")
    case True
    then show ?thesis
      by (subst decimal.simps) (simp add: digitChar_props)
  next
    case False
    have "n mod 10 < 10" by simp
    then show ?thesis
      using False 1 by (subst decimal.simps) (simp add: digitChar_props)
  qed
qed

lemma decimalValue_snoc:
  "decimalValue (xs @ [c]) = decimalValue xs * 10 + (int (of_char c) - 48)"
  by (simp add: decimalValue_def)

lemma decimalValue_decimal: "decimalValue (decimal n) = int n"
proof (induction n rule: decimal.induct)
  case (1 n)
  show ?case
  proof (cases "n < 10")
    case True
    then show ?thesis
      by (subst decimal.simps) (simp add: decimalValue_def digitChar_props)
  next
    case False
    have m: "n mod 10 < 10" by simp
    have "decimalValue (decimal n) =
        decimalValue (decimal (n div 10)) * 10 + (int (of_char (digitChar (n mod 10))) - 48)"
      using False by (subst decimal.simps) (simp add: decimalValue_snoc)
    also have "\<dots> = int (n div 10) * 10 + int (n mod 10)"
      using False 1 by (simp add: digitChar_props(2) [OF m])
    also have "\<dots> = int n"
      by (simp add: zdiv_int zmod_int)
    finally show ?thesis .
  qed
qed

lemma decimal_zero: "decimal 0 = ''0''"
  by (subst decimal.simps) (simp add: digitChar_def)

lemma decimal_hd: "n \<noteq> 0 \<Longrightarrow> hd (decimal n) \<noteq> CHR ''0''"
proof (induction n rule: decimal.induct)
  case (1 n)
  show ?case
  proof (cases "n < 10")
    case True
    then show ?thesis
      using 1(2) by (subst decimal.simps) (simp add: digitChar_props)
  next
    case False
    then have "n div 10 \<noteq> 0" by simp
    then have "hd (decimal (n div 10)) \<noteq> CHR ''0''"
      using 1(1) False by simp
    then show ?thesis
      using False decimal_nonempty [of "n div 10"]
      by (subst decimal.simps) (simp)
  qed
qed

lemma takeWhile_digits:
  "list_all isDigit ds \<Longrightarrow> \<not> isDigit c \<Longrightarrow>
     takeWhile isDigit (ds @ c # rest) = ds \<and> dropWhile isDigit (ds @ c # rest) = c # rest"
  by (induction ds) simp_all

lemma scanInt_decimal:
  assumes "\<not> isDigit c"
  shows "scanInt (decimal n @ c # rest) = Some (decimal n, c # rest)"
proof (cases "n = 0")
  case True
  then show ?thesis
    by (simp add: decimal_zero scanInt_def)
next
  case False
  obtain d ds where d: "decimal n = d # ds"
    using decimal_nonempty [of n] by (cases "decimal n") auto
  have "d \<noteq> CHR ''0''"
    using decimal_hd [OF False] d by simp
  moreover have "isDigit d" "list_all isDigit ds"
    using decimal_digits [of n] d by simp_all
  ultimately show ?thesis
    using takeWhile_digits [OF \<open>list_all isDigit ds\<close> assms, of rest]
    by (simp add: d scanInt_def)
qed

lemma endsNumber_simps:
  assumes "endsNumber c"
  shows "\<not> isDigit c" "c \<noteq> CHR ''.''" "c \<noteq> CHR ''e''" "c \<noteq> CHR ''E''" "\<not> isSpace c"
  using assms by (auto simp: endsNumber_def isDigit_def isSpace_def)

lemma scanNumber_decimal:
  assumes "endsNumber c"
  shows "scanNumber (decimal n @ c # rest) = Some (decimal n, c # rest)"
    and "scanNumber (CHR ''-'' # decimal n @ c # rest) = Some (CHR ''-'' # decimal n, c # rest)"
proof -
  obtain d ds where d: "decimal n = d # ds"
    using decimal_nonempty [of n] by (cases "decimal n") auto
  have "isDigit d"
    using decimal_digits [of n] d by simp
  then have m: "d \<noteq> CHR ''-''"
    by (auto simp: isDigit_def)
  have i: "scanInt (d # ds @ c # rest) = Some (d # ds, c # rest)"
    using scanInt_decimal [OF endsNumber_simps(1) [OF assms], of n rest] by (simp add: d)
  have f: "scanFrac (c # rest) = Some ([], c # rest)" "scanExp (c # rest) = Some ([], c # rest)"
    using endsNumber_simps [OF assms] by (simp_all add: scanFrac_def scanExp_def)
  show "scanNumber (decimal n @ c # rest) = Some (decimal n, c # rest)"
    using m by (simp add: d scanNumber_def i f)
  show "scanNumber (CHR ''-'' # decimal n @ c # rest) = Some (CHR ''-'' # decimal n, c # rest)"
    by (simp add: d scanNumber_def i f)
qed

lemma scanNumber_FormatInt:
  "endsNumber c \<Longrightarrow> scanNumber (FormatInt v @ c # rest) = Some (FormatInt v, c # rest)"
  by (simp add: FormatInt_def scanNumber_decimal)

lemma ParseInt_FormatInt: "ParseInt (FormatInt v) = Some v"
proof (cases "sint v < 0")
  case True
  have "- sint v \<le> 2 ^ 63"
    using sint_ge [of v] by simp
  then show ?thesis
    using True decimal_nonempty [of "nat (- sint v)"] decimal_digits [of "nat (- sint v)"]
    by (simp add: FormatInt_def ParseInt_def decimalValue_decimal)
next
  case False
  obtain d ds where d: "decimal (nat (sint v)) = d # ds"
    using decimal_nonempty [of "nat (sint v)"] by (cases "decimal (nat (sint v))") auto
  have "isDigit d"
    using decimal_digits [of "nat (sint v)"] d by simp
  then have m: "d \<noteq> CHR ''-''"
    by (auto simp: isDigit_def)
  have t: "take 1 (decimal (nat (sint v))) \<noteq> ''-''"
    using m by (simp add: d)
  have "sint v < 2 ^ 63"
    using sint_lt [of v] by simp
  then show ?thesis
    using False t decimal_nonempty [of "nat (sint v)"] decimal_digits [of "nat (sint v)"]
    by (simp add: FormatInt_def ParseInt_def decimalValue_decimal)
qed

lemma skipWS_nonspace: "\<not> isSpace c \<Longrightarrow> skipWS (c # cs) = c # cs"
  by (simp add: skipWS_def)

lemma FormatInt_head:
  obtains x xs where "FormatInt v = x # xs" and "x = CHR ''-'' \<or> isDigit x"
proof (cases "sint v < 0")
  case True
  then show ?thesis
    using that by (simp add: FormatInt_def)
next
  case False
  obtain d ds where d: "decimal (nat (sint v)) = d # ds"
    using decimal_nonempty [of "nat (sint v)"] by (cases "decimal (nat (sint v))") auto
  have "isDigit d"
    using decimal_digits [of "nat (sint v)"] d by simp
  then show ?thesis
    using that False d by (simp add: FormatInt_def)
qed

lemma parseValue_number:
  assumes "endsNumber c"
  shows "parseValue (Suc fuel) depth (FormatInt v @ c # rest) =
           Some (JNumber (FormatInt v), c # rest)"
proof -
  obtain x xs where x: "FormatInt v = x # xs" and h: "x = CHR ''-'' \<or> isDigit x"
    by (rule FormatInt_head)
  have ns: "\<not> isSpace x" "x \<noteq> CHR ''{''" "x \<noteq> CHR ''[''" "x \<noteq> dq"
    "x \<noteq> CHR ''t''" "x \<noteq> CHR ''f''" "x \<noteq> CHR ''n''"
    using h by (auto simp: isDigit_def isSpace_def)
  have sn: "scanNumber (x # xs @ c # rest) = Some (x # xs, c # rest)"
    using scanNumber_FormatInt [OF assms, of v rest] by (simp add: x)
  show ?thesis
    using ns h by (subst parseValue.simps) (simp add: x skipWS_nonspace sn)
qed

lemma member_text: "member m k = dq # encodeString k @ dq # CHR '':'' # FormatInt (val m k)"
  by (simp add: member_def quote_def val_def)

lemma parseMembers_one:
  assumes "validUTF8 k" and "endsNumber c"
  shows "parseMembers (Suc (Suc fuel)) depth (member m k @ c # rest) =
           (if c = CHR '','' then
              map_option (\<lambda>(ms, r'). ((k, JNumber (FormatInt (val m k))) # ms, r'))
                (parseMembers (Suc fuel) depth rest)
            else Some ([(k, JNumber (FormatInt (val m k)))], rest))"
proof -
  have u: "unquote (encodeString k @ dq # CHR '':'' # FormatInt (val m k) @ c # rest) =
      Some (k, CHR '':'' # FormatInt (val m k) @ c # rest)"
    using unquote_encodeString [OF assms(1)] by simp
  have s1: "skipWS (dq # encodeString k @ dq # CHR '':'' # FormatInt (val m k) @ c # rest) =
      dq # encodeString k @ dq # CHR '':'' # FormatInt (val m k) @ c # rest"
    by (simp add: skipWS_nonspace isSpace_def)
  have s2: "skipWS (CHR '':'' # FormatInt (val m k) @ c # rest) =
      CHR '':'' # FormatInt (val m k) @ c # rest"
    by (simp add: skipWS_nonspace isSpace_def)
  have s3: "skipWS (c # rest) = c # rest"
    using endsNumber_simps(5) [OF assms(2)] by (simp add: skipWS_nonspace)
  have c: "c \<noteq> CHR '','' \<Longrightarrow> c = CHR ''}''"
    using assms(2) by (simp add: endsNumber_def)
  show ?thesis
    using c
    by (subst parseMembers.simps)
      (simp add: member_text s1 u s2 parseValue_number [OF assms(2)] s3)
qed

lemma joinComma_Cons:
  "es \<noteq> [] \<Longrightarrow> joinComma (e # es) = e @ CHR '','' # joinComma es"
  by (cases es) simp_all

lemma parseMembers_text:
  assumes "ks \<noteq> []" and "\<forall>k \<in> set ks. validUTF8 k" and "length ks < fuel"
  shows "parseMembers fuel depth (joinComma (map (member m) ks) @ CHR ''}'' # rest) =
           Some (map (\<lambda>k. (k, JNumber (FormatInt (val m k)))) ks, rest)"
  using assms
proof (induction ks arbitrary: fuel)
  case Nil
  then show ?case by simp
next
  case (Cons k ks)
  obtain f where f: "fuel = Suc (Suc f)"
    using Cons.prems(3) by (cases fuel; cases "fuel - 1") auto
  have v: "validUTF8 k"
    using Cons.prems(2) by simp
  show ?case
  proof (cases "ks = []")
    case True
    have e: "endsNumber CHR ''}''"
      by (simp add: endsNumber_def)
    show ?thesis
      using parseMembers_one [OF v e, of f depth m rest] by (simp add: True f)
  next
    case False
    have e: "endsNumber CHR '',''"
      by (simp add: endsNumber_def)
    have "length ks < Suc f"
      using Cons.prems(3) f by simp
    then have IH: "parseMembers (Suc f) depth (joinComma (map (member m) ks) @ CHR ''}'' # rest) =
        Some (map (\<lambda>k. (k, JNumber (FormatInt (val m k)))) ks, rest)"
      using Cons.IH [OF False] Cons.prems(2) by simp
    have j: "joinComma (map (member m) (k # ks)) @ CHR ''}'' # rest =
        member m k @ CHR '','' # (joinComma (map (member m) ks) @ CHR ''}'' # rest)"
      using False by (simp add: joinComma_Cons)
    show ?thesis
      unfolding j f
      using parseMembers_one [OF v e, of f depth m
          "joinComma (map (member m) ks) @ CHR ''}'' # rest"] IH
      by simp
  qed
qed

lemma encodeString_files: "encodeString ''files'' = ''files''"
  by (simp add: encodeString.simps htmlSafe_def)

lemma validUTF8_files: "validUTF8 ''files''"
  by (simp add: validUTF8.simps runeLen_def leadLen_def)

lemma parseValue_outer:
  assumes "parseValue (Suc fuel) 9999 (inner @ ''}'') = Some (v, ''}'')"
  shows "parseValue (Suc (Suc (Suc fuel))) 10000
           (CHR ''{'' # dq # ''files'' @ dq # CHR '':'' # inner @ ''}'') =
         Some (JObject [(''files'', v)], [])"
proof -
  have u: "unquote (''files'' @ dq # CHR '':'' # inner @ ''}'') =
      Some (''files'', CHR '':'' # inner @ ''}'')"
    using unquote_encodeString [OF validUTF8_files, of "CHR '':'' # inner @ ''}''"]
    by (simp only: encodeString_files)
  have m: "parseMembers (Suc (Suc fuel)) 9999 (dq # ''files'' @ dq # CHR '':'' # inner @ ''}'') =
      Some ([(''files'', v)], [])"
    using u assms
    by (subst parseMembers.simps) (simp add: skipWS_nonspace isSpace_def)
  show ?thesis
    using m by (subst parseValue.simps) (simp add: skipWS_nonspace isSpace_def)
qed

lemma member_nonempty: "member m k \<noteq> []"
  by (simp add: member_text)

lemma joinComma_length: "\<forall>e \<in> set es. e \<noteq> [] \<Longrightarrow> length es \<le> length (joinComma es)"
proof (induction es rule: joinComma.induct)
  case 1
  then show ?case by simp
next
  case (2 e)
  then show ?case by (cases e) simp_all
next
  case (3 e v va)
  then show ?case by simp
qed

lemma joinComma_members_head:
  "ks \<noteq> [] \<Longrightarrow> \<exists>t. joinComma (map (member m) ks) = dq # t"
  by (cases ks; cases "tl ks") (auto simp: member_text)

lemma parseValue_object:
  assumes "\<forall>k \<in> set ks. validUTF8 k" and "length ks < fuel"
  shows "parseValue (Suc fuel) 9999 (CHR ''{'' # joinComma (map (member m) ks) @ ''}}'') =
           Some (JObject (map (\<lambda>k. (k, JNumber (FormatInt (val m k)))) ks), ''}'')"
proof (cases "ks = []")
  case True
  then show ?thesis
    by (subst parseValue.simps) (simp add: skipWS_nonspace isSpace_def)
next
  case False
  obtain t where t: "joinComma (map (member m) ks) = dq # t"
    using joinComma_members_head [OF False] by blast
  have p: "parseMembers fuel 9998 (joinComma (map (member m) ks) @ ''}}'') =
      Some (map (\<lambda>k. (k, JNumber (FormatInt (val m k)))) ks, ''}'')"
    using parseMembers_text [OF False assms, of 9998 m "''}''"] by simp
  have s: "skipWS (joinComma (map (member m) ks) @ ''}}'') = dq # t @ ''}}''"
    by (simp add: t skipWS_nonspace isSpace_def)
  have o: "skipWS (CHR ''{'' # joinComma (map (member m) ks) @ ''}}'') =
      CHR ''{'' # joinComma (map (member m) ks) @ ''}}''"
    by (simp add: skipWS_nonspace isSpace_def)
  show ?thesis
    by (subst parseValue.simps) (simp only: o s list.case if_True if_False, simp add: p)
qed

lemma Marshal_Some:
  "Marshal \<lparr>Files = Some m\<rparr> =
     CHR ''{'' # dq # ''files'' @ dq # CHR '':'' #
       (CHR ''{'' # joinComma (map (member m) (sorted_list_of_fset (fmdom m))) @ ''}'') @ ''}''"
  by (simp add: Marshal_def quote_def encodeString_files)

lemma Marshal_None:
  "Marshal \<lparr>Files = None\<rparr> = CHR ''{'' # dq # ''files'' @ dq # CHR '':'' # ''null'' @ ''}''"
  by (simp add: Marshal_def quote_def encodeString_files)

lemma parseJSON_Marshal_Some:
  assumes "\<forall>k \<in> fmdom' m. validUTF8 k"
  shows "parseJSON (Marshal \<lparr>Files = Some m\<rparr>) =
           Some (JObject [(''files'',
             JObject (map (\<lambda>k. (k, JNumber (FormatInt (val m k))))
               (sorted_list_of_fset (fmdom m))))])"
proof -
  define ks where "ks = sorted_list_of_fset (fmdom m)"
  define body where "body = joinComma (map (member m) ks)"
  have v: "\<forall>k \<in> set ks. validUTF8 k"
    using assms by (simp add: ks_def fmdom'_alt_def)
  have "length ks \<le> length body"
    unfolding body_def by (rule order_trans [OF _ joinComma_length]) (simp_all add: member_nonempty)
  then obtain f where f: "Suc (length (Marshal \<lparr>Files = Some m\<rparr>)
      + length (Marshal \<lparr>Files = Some m\<rparr>)) = Suc (Suc (Suc f))"
    and l: "length ks < f"
    by (simp add: Marshal_Some ks_def [symmetric] body_def [symmetric])
  have i: "parseValue (Suc f) 9999 ((CHR ''{'' # body @ ''}'') @ ''}'') =
      Some (JObject (map (\<lambda>k. (k, JNumber (FormatInt (val m k)))) ks), ''}'')"
    using parseValue_object [OF v l, of m] by (simp add: body_def)
  have "parseValue (Suc (length (Marshal \<lparr>Files = Some m\<rparr>)
      + length (Marshal \<lparr>Files = Some m\<rparr>))) 10000 (Marshal \<lparr>Files = Some m\<rparr>) =
      Some (JObject [(''files'', JObject (map (\<lambda>k. (k, JNumber (FormatInt (val m k)))) ks))], [])"
    unfolding f using parseValue_outer [OF i]
    by (simp add: Marshal_Some ks_def [symmetric] body_def [symmetric])
  then show ?thesis
    by (simp add: parseJSON_def skipWS_def ks_def)
qed

lemma parseJSON_Marshal_None:
  "parseJSON (Marshal \<lparr>Files = None\<rparr>) = Some (JObject [(''files'', JNull)])"
proof -
  obtain f where f: "Suc (length (Marshal \<lparr>Files = None\<rparr>)
      + length (Marshal \<lparr>Files = None\<rparr>)) = Suc (Suc (Suc f))"
    by (simp add: Marshal_None)
  have i: "parseValue (Suc f) 9999 (''null'' @ ''}'') = Some (JNull, ''}'')"
    by (subst parseValue.simps) (simp add: skipWS_nonspace isSpace_def)
  have "parseValue (Suc (length (Marshal \<lparr>Files = None\<rparr>)
      + length (Marshal \<lparr>Files = None\<rparr>))) 10000 (Marshal \<lparr>Files = None\<rparr>) =
      Some (JObject [(''files'', JNull)], [])"
    unfolding f using parseValue_outer [OF i] by (simp add: Marshal_None)
  then show ?thesis
    by (simp add: parseJSON_def skipWS_def)
qed

lemma foldName_files: "foldName ''files'' = ''FILES''"
  by code_simp

lemma decodeInt_FormatInt: "decodeInt (JNumber (FormatInt v)) = v"
  by (simp add: decodeInt_def ParseInt_FormatInt)

lemma foldl_decode:
  "foldl (\<lambda>m' (k, x). fmupd k (decodeInt x) m') m0
     (map (\<lambda>k. (k, JNumber (FormatInt (val m k)))) ks) =
   foldl (\<lambda>m' k. fmupd k (val m k) m') m0 ks"
  by (induction ks arbitrary: m0) (simp_all add: decodeInt_FormatInt)

lemma lookup_foldl:
  "fmlookup (foldl (\<lambda>m' k. fmupd k (f k) m') m0 ks) x =
     (if x \<in> set ks then Some (f x) else fmlookup m0 x)"
  by (induction ks arbitrary: m0) auto

lemma rebuild_fmap:
  assumes "set ks = fmdom' m"
  shows "foldl (\<lambda>m' k. fmupd k (val m k) m') fmempty ks = m"
proof (rule fmap_ext)
  fix x
  show "fmlookup (foldl (\<lambda>m' k. fmupd k (val m k) m') fmempty ks) x = fmlookup m x"
  proof (cases "x \<in> fmdom' m")
    case True
    then obtain y where "fmlookup m x = Some y"
      by (auto simp: fmdom'_alt_def fmlookup_dom_iff)
    then show ?thesis
      using True assms by (simp add: lookup_foldl val_def)
  next
    case False
    then have "fmlookup m x = None"
      by (simp add: fmdom'_notD)
    then show ?thesis
      using False assms by (simp add: lookup_foldl)
  qed
qed

lemma decodeState_files:
  "decodeState (JObject [(''files'', v)]) \<lparr>Files = cur\<rparr> = \<lparr>Files = decodeFiles v cur\<rparr>"
  by (simp add: decodeState_def foldName_files)

lemma Unmarshal_Marshal:
  assumes "\<forall>k \<in> ledgerKeys state. validUTF8 k"
  shows "Unmarshal (Marshal state) \<lparr>Files = Some fmempty\<rparr> = state"
proof (cases state)
  case (fields fm)
  show ?thesis
  proof (cases fm)
    case None
    then show ?thesis
      by (simp add: fields Unmarshal_def parseJSON_Marshal_None decodeState_files decodeFiles_def)
  next
    case (Some m)
    have v: "\<forall>k \<in> fmdom' m. validUTF8 k"
      using assms by (simp add: fields Some ledgerKeys_def)
    have s: "set (sorted_list_of_fset (fmdom m)) = fmdom' m"
      by (simp add: fmdom'_alt_def)
    show ?thesis
      by (simp add: fields Some Unmarshal_def parseJSON_Marshal_Some [OF v] decodeState_files
          decodeFiles_def foldl_decode rebuild_fmap [OF s])
  qed
qed

text \<open>
  C7, amended. When the write of the ledger file and the read back succeed and every
  path of the ledger is valid UTF-8, \<open>saveDownloadState\<close> followed by
  \<open>loadDownloadState\<close> gives back exactly the ledger saved (a nil map included).
\<close>

theorem ledger_roundtrip:
  assumes "writeResult e = WriteOK" and "\<not> readFileFails e'"
    and "\<forall>k \<in> ledgerKeys state. validUTF8 k"
  shows "loadDownloadState cfg e' (saveDownloadState cfg e fs state) = state"
  using assms(1,2)
  by (simp add: loadDownloadState_def saveDownloadState_def ReadFile_def WriteFile_def
      Unmarshal_Marshal [OF assms(3)])

text \<open>
  C8. \<open>loadDownloadState\<close> has no error result, and whenever the ledger file is
  unreadable, absent or not syntactically valid JSON it returns the empty ledger.
\<close>

theorem load_never_fails:
  assumes "readFileFails e \<or> fs (ledgerPath cfg) = None
           \<or> (\<exists>data. fs (ledgerPath cfg) = Some data \<and> parseJSON data = None)"
  shows "loadDownloadState cfg e fs = emptyLedger"
  using assms
  by (auto simp: loadDownloadState_def ReadFile_def Unmarshal_def ledgerPath_def emptyLedger_def)

lemma transfer_cases:
  "transfer cfg e fs filePath = (fs', out) \<Longrightarrow>
     (fs' = fs \<and> out \<in> {RequestFailed, TransportFailed, MkdirFailed, Skipped, CreateFailed})
   \<or> (\<exists>resp. doResult e = Some resp \<and> StatusCode resp \<noteq> 200 \<and> fs' = fs
         \<and> out = BadStatus (StatusCode resp))
   \<or> (\<exists>resp n. doResult e = Some resp \<and> copyStops e = Some n \<and> out = CopyFailed
         \<and> fs' = fs(target cfg filePath \<mapsto> take n (Body resp)))
   \<or> (\<exists>resp. doResult e = Some resp \<and> copyStops e = None
         \<and> fs' = fs(target cfg filePath \<mapsto> Body resp)
         \<and> \<not> newRequestFails e \<and> StatusCode resp = 200 \<and> \<not> mkdirAllFails e \<and> \<not> createFails e
         \<and> (if 0 <s ContentLength resp \<and> of_nat (length (Body resp)) \<noteq> ContentLength resp
              then out = SizeMismatch else out = Downloaded (of_nat (length (Body resp)))))"
  by (auto simp: transfer_def target_def Let_def split: if_splits option.splits)

lemma downloadFile_cases:
  assumes "downloadFile cfg e fs filePath = (fs', out)"
  obtains
    (kept) fs1 where "transfer cfg e fs filePath = (fs1, out)" "fs' = fs1" "\<forall>w. out \<noteq> Downloaded w"
      "out \<noteq> Panicked"
  | (panic) w where "transfer cfg e fs filePath = (fs', Downloaded w)" "out = Panicked"
      "Files (loadDownloadState cfg e fs) = None"
  | (saved) fs1 w m where "transfer cfg e fs filePath = (fs1, Downloaded w)" "out = Downloaded w"
      "Files (loadDownloadState cfg e fs) = Some m"
      "fs' = saveDownloadState cfg e fs1
               ((loadDownloadState cfg e fs)\<lparr>Files := Some (fmupd filePath w m)\<rparr>)"
proof -
  obtain fs1 o1 where t: "transfer cfg e fs filePath = (fs1, o1)"
    by (cases "transfer cfg e fs filePath") auto
  have np: "o1 \<noteq> Panicked"
    using transfer_cases [OF t] by (auto split: if_splits)
  show ?thesis
  proof (cases o1)
    case (Downloaded w)
    show ?thesis
    proof (cases "Files (loadDownloadState cfg e fs)")
      case None
      then show ?thesis
        using assms t Downloaded panic by (simp add: downloadFile_def Let_def)
    next
      case (Some m)
      have "out = Downloaded w"
        and "fs' = saveDownloadState cfg e fs1
               ((loadDownloadState cfg e fs)\<lparr>Files := Some (fmupd filePath w m)\<rparr>)"
        using assms t Downloaded Some by (auto simp: downloadFile_def Let_def)
      then show ?thesis
        using saved [of fs1 w m] t Downloaded Some by simp
    qed
  qed (use assms t kept np in \<open>auto simp: downloadFile_def Let_def\<close>)
qed

lemma saveDownloadState_other:
  "p \<noteq> ledgerPath cfg \<Longrightarrow> saveDownloadState cfg e fs state p = fs p"
  by (simp add: saveDownloadState_def WriteFile_def ledgerPath_def split: write_outcome.splits)

lemma saveDownloadState_keeps:
  "fs p \<noteq> None \<Longrightarrow> saveDownloadState cfg e fs state p \<noteq> None"
  by (simp add: saveDownloadState_def WriteFile_def split: write_outcome.splits)

lemma saveDownloadState_written:
  "writeResult e = WriteOK \<Longrightarrow>
     saveDownloadState cfg e fs state (ledgerPath cfg) = Some (Marshal state)"
  by (simp add: saveDownloadState_def WriteFile_def ledgerPath_def)

lemma transfer_keeps:
  "transfer cfg e fs filePath = (fs', out) \<Longrightarrow> fs p \<noteq> None \<Longrightarrow> fs' p \<noteq> None"
  by (drule transfer_cases) auto

lemma transfer_other:
  "transfer cfg e fs filePath = (fs', out) \<Longrightarrow> p \<noteq> target cfg filePath \<Longrightarrow> fs' p = fs p"
  by (drule transfer_cases) auto

lemma transfer_completes:
  assumes "completes cfg e fs filePath resp"
  shows "transfer cfg e fs filePath =
           (fs(target cfg filePath \<mapsto> Body resp), Downloaded (of_nat (length (Body resp))))"
  using assms
  by (auto simp: completes_def upToDate_def transfer_def target_def Let_def
      split: option.splits)

lemma transfer_Downloaded:
  assumes "transfer cfg e fs filePath = (fs1, Downloaded w)"
  shows "\<exists>resp. completes cfg e fs filePath resp \<and> w = of_nat (length (Body resp))"
  using assms
  by (auto simp: completes_def upToDate_def transfer_def target_def Let_def
      split: if_splits option.splits)

lemma downloadFile_completes:
  assumes "completes cfg e fs filePath resp"
    and "Files (loadDownloadState cfg e fs) = Some m"
  shows "downloadFile cfg e fs filePath =
           (saveDownloadState cfg e (fs(target cfg filePath \<mapsto> Body resp))
              \<lparr>Files = Some (fmupd filePath (of_nat (length (Body resp))) m)\<rparr>,
            Downloaded (of_nat (length (Body resp))))"
proof -
  obtain fm where st: "loadDownloadState cfg e fs = \<lparr>Files = fm\<rparr>"
    by (cases "loadDownloadState cfg e fs") auto
  show ?thesis
    using assms(2) by (simp add: downloadFile_def transfer_completes [OF assms(1)] st)
qed

text \<open>
  C3, amended. Provided the local target is not the ledger file itself: on every return
  other than the completed transfer (a failed request, a status other than 200, a
  failure to create the directories or the file, the skip, a copy error, a size
  mismatch) the ledger file is untouched; no file of the disk is ever deleted, and after
  a copy error or a size mismatch the target holds the bytes written. The entry is
  recorded exactly by the completed transfer: a return with the entry recorded comes
  from a run in which the status was 200, the directories and the file were created, no
  local copy made it skip, the body was copied in full and no announced size
  contradicts it; and every such run, when the ledger loaded at the start has a map,
  leaves the body in the target and returns with the entry recorded, the ledger file
  holding the ledger loaded at the start with the entry of the path set to the bytes
  written whenever its write succeeds.
\<close>

theorem ledger_updated_only_on_success:
  assumes "target cfg filePath \<noteq> ledgerPath cfg"
    and "downloadFile cfg e fs filePath = (fs', out)"
  shows "((\<forall>w. out \<noteq> Downloaded w) \<longrightarrow> fs' (ledgerPath cfg) = fs (ledgerPath cfg))
       \<and> (\<forall>p. fs p \<noteq> None \<longrightarrow> fs' p \<noteq> None)
       \<and> (\<forall>resp. doResult e = Some resp \<longrightarrow>
            (out = CopyFailed \<longrightarrow>
               (\<exists>n. copyStops e = Some n \<and> fs' (target cfg filePath) = Some (take n (Body resp))))
          \<and> (out = SizeMismatch \<longrightarrow> fs' (target cfg filePath) = Some (Body resp)))
       \<and> (\<forall>w. out = Downloaded w \<longrightarrow>
            (\<exists>resp m. completes cfg e fs filePath resp \<and> w = of_nat (length (Body resp))
               \<and> Files (loadDownloadState cfg e fs) = Some m))
       \<and> (\<forall>resp m. completes cfg e fs filePath resp
              \<and> Files (loadDownloadState cfg e fs) = Some m \<longrightarrow>
            out = Downloaded (of_nat (length (Body resp)))
          \<and> fs' (target cfg filePath) = Some (Body resp)
          \<and> (writeResult e = WriteOK \<longrightarrow>
               fs' (ledgerPath cfg) =
                 Some (Marshal \<lparr>Files = Some (fmupd filePath (of_nat (length (Body resp))) m)\<rparr>)))"
proof -
  have fin: "out = Downloaded (of_nat (length (Body resp)))
      \<and> fs' (target cfg filePath) = Some (Body resp)
      \<and> (writeResult e = WriteOK \<longrightarrow>
           fs' (ledgerPath cfg) =
             Some (Marshal \<lparr>Files = Some (fmupd filePath (of_nat (length (Body resp))) m)\<rparr>))"
    if c: "completes cfg e fs filePath resp" and m: "Files (loadDownloadState cfg e fs) = Some m"
    for resp m
  proof -
    have d: "fs' = saveDownloadState cfg e (fs(target cfg filePath \<mapsto> Body resp))
                \<lparr>Files = Some (fmupd filePath (of_nat (length (Body resp))) m)\<rparr>"
      and o: "out = Downloaded (of_nat (length (Body resp)))"
      using downloadFile_completes [OF c m] assms(2) by simp_all
    have t: "fs' (target cfg filePath) = Some (Body resp)"
      unfolding d using saveDownloadState_other [OF assms(1)] by simp
    have l: "writeResult e = WriteOK \<longrightarrow>
        fs' (ledgerPath cfg) =
          Some (Marshal \<lparr>Files = Some (fmupd filePath (of_nat (length (Body resp))) m)\<rparr>)"
      unfolding d by (simp add: saveDownloadState_written)
    show ?thesis
      using o t l by simp
  qed
  from assms(2) have first: "((\<forall>w. out \<noteq> Downloaded w) \<longrightarrow> fs' (ledgerPath cfg) = fs (ledgerPath cfg))
       \<and> (\<forall>p. fs p \<noteq> None \<longrightarrow> fs' p \<noteq> None)
       \<and> (\<forall>resp. doResult e = Some resp \<longrightarrow>
            (out = CopyFailed \<longrightarrow>
               (\<exists>n. copyStops e = Some n \<and> fs' (target cfg filePath) = Some (take n (Body resp))))
          \<and> (out = SizeMismatch \<longrightarrow> fs' (target cfg filePath) = Some (Body resp)))
       \<and> (\<forall>w. out = Downloaded w \<longrightarrow>
            (\<exists>resp m. completes cfg e fs filePath resp \<and> w = of_nat (length (Body resp))
               \<and> Files (loadDownloadState cfg e fs) = Some m))"
  proof (cases rule: downloadFile_cases)
    case (kept fs1)
    have l: "fs' (ledgerPath cfg) = fs (ledgerPath cfg)"
      using transfer_other [OF kept(1), of "ledgerPath cfg"] assms(1) kept(2) by simp
    have k: "\<forall>p. fs p \<noteq> None \<longrightarrow> fs' p \<noteq> None"
      using transfer_keeps [OF kept(1)] kept(2) by simp
    have c: "\<forall>resp. doResult e = Some resp \<longrightarrow>
              (out = CopyFailed \<longrightarrow>
                 (\<exists>n. copyStops e = Some n \<and> fs' (target cfg filePath) = Some (take n (Body resp))))
            \<and> (out = SizeMismatch \<longrightarrow> fs' (target cfg filePath) = Some (Body resp))"
      using transfer_cases [OF kept(1)] kept(2) by (auto split: if_splits)
    show ?thesis
      using l k c kept(3) by blast
  next
    case (panic w)
    have l: "fs' (ledgerPath cfg) = fs (ledgerPath cfg)"
      using transfer_other [OF panic(1), of "ledgerPath cfg"] assms(1) by simp
    have k: "\<forall>p. fs p \<noteq> None \<longrightarrow> fs' p \<noteq> None"
      using transfer_keeps [OF panic(1)] by simp
    show ?thesis
      using l k panic(2) by simp
  next
    case (saved fs1 w m)
    have k: "\<forall>p. fs p \<noteq> None \<longrightarrow> fs' p \<noteq> None"
      using transfer_keeps [OF saved(1)] saveDownloadState_keeps saved(4) by simp
    have d: "\<exists>resp. completes cfg e fs filePath resp \<and> w = of_nat (length (Body resp))"
      using transfer_Downloaded [OF saved(1)] .
    show ?thesis
      using k d saved(2,3) by auto
  qed
  show ?thesis
    using first fin by blast
qed

text \<open>
  C6. When a local file exists at the target and its size equals the expected size of
  the response (a \<open>Content-Length\<close> above zero, the only case in which a size is
  expected), \<open>downloadFile\<close> leaves the whole disk as it was, the local file and the
  ledger file included, and, once the response with status 200 has arrived and the
  directories exist, it returns by the skip.
\<close>

theorem skip_when_complete:
  assumes "doResult e = Some resp" and "0 <s ContentLength resp"
    and "fs (target cfg filePath) = Some content"
    and "of_nat (length content) = ContentLength resp"
  shows "fst (downloadFile cfg e fs filePath) = fs
       \<and> (\<not> newRequestFails e \<and> StatusCode resp = 200 \<and> \<not> mkdirAllFails e \<longrightarrow>
            snd (downloadFile cfg e fs filePath) = Skipped)"
proof -
  have t: "transfer cfg e fs filePath =
      (fs, if newRequestFails e then RequestFailed
           else if StatusCode resp \<noteq> 200 then BadStatus (StatusCode resp)
           else if mkdirAllFails e then MkdirFailed else Skipped)"
    using assms by (simp add: transfer_def target_def Let_def)
  show ?thesis
    by (simp add: downloadFile_def t Let_def)
qed

text \<open>
  C10. When the \<open>Content-Length\<close> of the response is absent (-1), zero or negative,
  \<open>downloadFile\<close> never returns by the skip, whatever the local file holds. When that
  response has status 200 and the directories and the file are created, the target is
  rewritten from the body: \<open>downloadFile\<close> returns the disk in which the target holds the
  bytes copied, with the ledger saved on top of it after a full copy; so on its return
  the target, unless it is the ledger file itself, holds exactly the bytes copied.
\<close>

theorem no_skip_without_size:
  assumes "doResult e = Some resp" and "\<not> 0 <s ContentLength resp"
  shows "snd (downloadFile cfg e fs filePath) \<noteq> Skipped
       \<and> (\<not> newRequestFails e \<and> StatusCode resp = 200 \<and> \<not> mkdirAllFails e \<and> \<not> createFails e \<longrightarrow>
            downloadFile cfg e fs filePath =
              (case copyStops e of
                 Some n \<Rightarrow> (fs(target cfg filePath \<mapsto> take n (Body resp)), CopyFailed)
               | None \<Rightarrow>
                   (case Files (loadDownloadState cfg e fs) of
                      None \<Rightarrow> (fs(target cfg filePath \<mapsto> Body resp), Panicked)
                    | Some m \<Rightarrow>
                        (saveDownloadState cfg e (fs(target cfg filePath \<mapsto> Body resp))
                           \<lparr>Files = Some (fmupd filePath (of_nat (length (Body resp))) m)\<rparr>,
                         Downloaded (of_nat (length (Body resp))))))
          \<and> (target cfg filePath \<noteq> ledgerPath cfg \<longrightarrow>
               fst (downloadFile cfg e fs filePath) (target cfg filePath) =
                 Some (case copyStops e of None \<Rightarrow> Body resp | Some n \<Rightarrow> take n (Body resp))))"
proof -
  obtain fs1 o1 where t: "transfer cfg e fs filePath = (fs1, o1)"
    by (cases "transfer cfg e fs filePath") auto
  obtain fm where st: "loadDownloadState cfg e fs = \<lparr>Files = fm\<rparr>"
    by (cases "loadDownloadState cfg e fs") auto
  have s: "o1 \<noteq> Skipped"
    using t assms
    by (auto simp: transfer_def target_def Let_def split: if_splits option.splits)
  have d: "snd (downloadFile cfg e fs filePath) \<noteq> Skipped"
    using s by (cases o1) (auto simp: downloadFile_def t Let_def split: option.splits)
  have c: "downloadFile cfg e fs filePath =
      (case copyStops e of
         Some n \<Rightarrow> (fs(target cfg filePath \<mapsto> take n (Body resp)), CopyFailed)
       | None \<Rightarrow>
           (case Files (loadDownloadState cfg e fs) of
              None \<Rightarrow> (fs(target cfg filePath \<mapsto> Body resp), Panicked)
            | Some m \<Rightarrow>
                (saveDownloadState cfg e (fs(target cfg filePath \<mapsto> Body resp))
                   \<lparr>Files = Some (fmupd filePath (of_nat (length (Body resp))) m)\<rparr>,
                 Downloaded (of_nat (length (Body resp))))))"
    if "\<not> newRequestFails e" "StatusCode resp = 200" "\<not> mkdirAllFails e" "\<not> createFails e"
  proof -
    have "transfer cfg e fs filePath =
        (case copyStops e of
           Some n \<Rightarrow> (fs(target cfg filePath \<mapsto> take n (Body resp)), CopyFailed)
         | None \<Rightarrow> (fs(target cfg filePath \<mapsto> Body resp), Downloaded (of_nat (length (Body resp)))))"
      using assms that
      by (auto simp: transfer_def target_def Let_def split: option.splits)
    then show ?thesis
      by (simp add: downloadFile_def st split: option.splits)
  qed
  have r: "fst (downloadFile cfg e fs filePath) (target cfg filePath) =
      Some (case copyStops e of None \<Rightarrow> Body resp | Some n \<Rightarrow> take n (Body resp))"
    if "\<not> newRequestFails e" "StatusCode resp = 200" "\<not> mkdirAllFails e" "\<not> createFails e"
      and n: "target cfg filePath \<noteq> ledgerPath cfg"
    unfolding c [OF that(1-4)]
    by (simp add: saveDownloadState_other [OF n] split: option.splits)
  show ?thesis
    using d c r by blast
qed

lemma paths_default:
  "ledgerPath defaultConfig = ''.download_state.json''"
  "target defaultConfig ''a.txt'' = ''a.txt''"
  "target defaultConfig ''empty.txt'' = ''empty.txt''"
  "target defaultConfig ''.download_state.json'' = ''.download_state.json''"
  "target defaultConfig ''b.txt'' = ''b.txt''"
  by (simp_all add: ledgerPath_def target_def defaultConfig_def) code_simp+

lemma Marshal_ledgerX: "Marshal ledgerX = ledgerText"
  unfolding ledgerText_def ledgerX_def by code_simp

lemma validUTF8_x: "validUTF8 ''x''"
  by (simp add: validUTF8.simps runeLen_def leadLen_def)

theorem ledger_roundtrip_witness:
  "writeResult quietEnv = WriteOK \<and> \<not> readFileFails quietEnv
   \<and> saveDownloadState defaultConfig quietEnv Map.empty ledgerX ''.download_state.json''
       = Some ledgerText
   \<and> loadDownloadState defaultConfig quietEnv
        (saveDownloadState defaultConfig quietEnv Map.empty ledgerX) = ledgerX"
proof -
  have w: "writeResult quietEnv = WriteOK" and r: "\<not> readFileFails quietEnv"
    by (simp_all add: quietEnv_def)
  have v: "\<forall>k \<in> ledgerKeys ledgerX. validUTF8 k"
    by (simp add: ledgerKeys_def ledgerX_def validUTF8_x)
  have s: "saveDownloadState defaultConfig quietEnv Map.empty ledgerX ''.download_state.json''
       = Some ledgerText"
    using saveDownloadState_written [OF w, of defaultConfig Map.empty ledgerX]
    by (simp add: paths_default Marshal_ledgerX)
  show ?thesis
    using ledger_roundtrip [OF w r v, of defaultConfig Map.empty] w r s by simp
qed

lemma Marshal_badLedger: "Marshal badLedger = badText"
  unfolding badLedger_def badText_def by code_simp

lemma encodeRune_fffd: "encodeRune 0xFFFD = [CHR 0xEF, CHR 0xBF, CHR 0xBD]"
  by (simp add: encodeRune_def replacementChar_def char_of_def bit_Suc_0_iff)

lemma getu4_fffd: "getu4 (CHR ''f'' # CHR ''f'' # CHR ''f'' # CHR ''d'' # X) = Some 0xFFFD"
  by (simp add: getu4_def ishex_def unhex_def)

lemma unquote_fffd:
  "unquote (bsl # ''ufffd'' @ dq # X) = Some ([CHR 0xEF, CHR 0xBF, CHR 0xBD], X)"
  by (subst unquote.simps, simp add: getu4_fffd encodeRune_fffd, subst unquote.simps, simp)

lemma unquote_plain_files: "unquote (''files'' @ dq # X) = Some (''files'', X)"
  using unquote_encodeString [OF validUTF8_files, of X] by (simp only: encodeString_files)

lemma parse_badText:
  "parseJSON badText =
     Some (JObject [(''files'', JObject [([CHR 0xEF, CHR 0xBF, CHR 0xBD], JNumber ''1'')])])"
proof -
  have n: "scanNumber (''1}}'') = Some (''1'', ''}}'')"
    by (simp add: scanNumber_def scanInt_def scanFrac_def scanExp_def isDigit_def)
  have u1: "unquote (''files'' @ dq # '':{'' @ dq # bsl # ''ufffd'' @ dq # '':1}}'') =
      Some (''files'', '':{'' @ dq # bsl # ''ufffd'' @ dq # '':1}}'')"
    by (rule unquote_plain_files)
  have u2: "unquote (bsl # ''ufffd'' @ dq # '':1}}'') = Some ([CHR 0xEF, CHR 0xBF, CHR 0xBD], '':1}}'')"
    by (rule unquote_fffd)
  show ?thesis
    using u1 u2 n
    by (simp add: parseJSON_def badText_def parseValue.simps parseMembers.simps skipWS_def
        isSpace_def isDigit_def)
qed

lemma ParseInt_1: "ParseInt ''1'' = Some 1"
  by (simp add: ParseInt_def decimalValue_def isDigit_def)

text \<open>
  C7. The claim: every ledger is reproduced by saving and reloading. A path that is not
  valid UTF-8 is not: \<open>json.Marshal\<close> writes the byte 0xFF as the escape of U+FFFD, and
  the ledger reloaded has the key EF BF BD instead.
\<close>

theorem ledger_roundtrip_invalid_utf8:
  "loadDownloadState defaultConfig quietEnv
     (saveDownloadState defaultConfig quietEnv Map.empty badLedger)
     = \<lparr>Files = Some (fmupd [CHR 0xEF, CHR 0xBF, CHR 0xBD] 1 fmempty)\<rparr>
   \<and> loadDownloadState defaultConfig quietEnv
        (saveDownloadState defaultConfig quietEnv Map.empty badLedger) \<noteq> badLedger"
proof -
  have l: "loadDownloadState defaultConfig quietEnv
     (saveDownloadState defaultConfig quietEnv Map.empty badLedger)
     = \<lparr>Files = Some (fmupd [CHR 0xEF, CHR 0xBF, CHR 0xBD] 1 fmempty)\<rparr>"
    by (simp add: loadDownloadState_def saveDownloadState_def ReadFile_def WriteFile_def
        quietEnv_def Unmarshal_def Marshal_badLedger parse_badText decodeState_files
        decodeFiles_def decodeInt_def ParseInt_1)
  have "fmlookup (fmupd [CHR 0xEF, CHR 0xBF, CHR 0xBD] (1::int64) fmempty) [CHR 0xFF]
      \<noteq> fmlookup (fmupd [CHR 0xFF] (1::int64) fmempty) [CHR 0xFF]"
    by simp
  then have "fmupd [CHR 0xEF, CHR 0xBF, CHR 0xBD] (1::int64) fmempty \<noteq> fmupd [CHR 0xFF] 1 fmempty"
    by metis
  then show ?thesis
    unfolding l by (simp add: badLedger_def)
qed

lemma parse_truncated: "parseJSON ''{'' = None"
  by (simp add: parseJSON_def parseValue.simps skipWS_def)

theorem load_never_fails_witness:
  "loadDownloadState defaultConfig (quietEnv\<lparr>readFileFails := True\<rparr>)
     [''.download_state.json'' \<mapsto> ledgerText] = emptyLedger
   \<and> loadDownloadState defaultConfig quietEnv Map.empty = emptyLedger
   \<and> loadDownloadState defaultConfig quietEnv [''.download_state.json'' \<mapsto> ''{''] = emptyLedger"
proof -
  have a: "readFileFails (quietEnv\<lparr>readFileFails := True\<rparr>)
      \<or> [''.download_state.json'' \<mapsto> ledgerText] (ledgerPath defaultConfig) = None
      \<or> (\<exists>data. [''.download_state.json'' \<mapsto> ledgerText] (ledgerPath defaultConfig) = Some data
            \<and> parseJSON data = None)"
    by simp
  have b: "readFileFails quietEnv \<or> Map.empty (ledgerPath defaultConfig) = None
      \<or> (\<exists>data. Map.empty (ledgerPath defaultConfig) = Some data \<and> parseJSON data = None)"
    by simp
  have c: "readFileFails quietEnv
      \<or> [''.download_state.json'' \<mapsto> ''{''] (ledgerPath defaultConfig) = None
      \<or> (\<exists>data. [''.download_state.json'' \<mapsto> ''{''] (ledgerPath defaultConfig) = Some data
            \<and> parseJSON data = None)"
    by (simp add: paths_default parse_truncated)
  show ?thesis
    using load_never_fails [where e = "quietEnv\<lparr>readFileFails := True\<rparr>"
        and fs = "[''.download_state.json'' \<mapsto> ledgerText]" and cfg = defaultConfig, OF a]
      load_never_fails [where e = quietEnv and fs = Map.empty and cfg = defaultConfig, OF b]
      load_never_fails [where e = quietEnv and fs = "[''.download_state.json'' \<mapsto> ''{'']"
        and cfg = defaultConfig, OF c]
    by simp
qed

lemma sless_examples:
  "(0::int64) <s 10" "(0::int64) <s 5" "\<not> (0::int64) <s 0" "\<not> (0::int64) <s - 1"
  by (simp_all add: word_sless_alt)

lemma transfer_mismatch:
  "transfer defaultConfig (respOf 10 ''HELLO'') diskWithLedger ''a.txt'' =
     (diskWithLedger(''a.txt'' \<mapsto> ''HELLO''), SizeMismatch)"
  using paths_default(2)
  by (simp add: transfer_def target_def respOf_def quietEnv_def diskWithLedger_def sless_examples)

lemma load_diskWithLedger:
  assumes "\<not> readFileFails e"
  shows "loadDownloadState defaultConfig e diskWithLedger = ledgerX"
proof -
  have v: "\<forall>k \<in> ledgerKeys ledgerX. validUTF8 k"
    by (simp add: ledgerKeys_def ledgerX_def validUTF8_x)
  have p: "resolve defaultConfig (resumeFile defaultConfig) = ''.download_state.json''"
    using paths_default(1) by (simp add: ledgerPath_def)
  have d: "diskWithLedger ''.download_state.json'' = Some ledgerText"
    by (simp add: diskWithLedger_def)
  show ?thesis
    using assms Unmarshal_Marshal [OF v]
    by (simp add: loadDownloadState_def ReadFile_def p d Marshal_ledgerX)
qed

lemma completes_b:
  "completes defaultConfig (respOf 5 ''HELLO'') diskWithLedger ''b.txt''
     \<lparr>StatusCode = 200, ContentLength = 5, Body = ''HELLO''\<rparr>"
  by (simp add: completes_def upToDate_def respOf_def quietEnv_def paths_default
      diskWithLedger_def)

theorem ledger_updated_only_on_success_witness:
  "target defaultConfig ''a.txt'' \<noteq> ledgerPath defaultConfig
   \<and> downloadFile defaultConfig (respOf 10 ''HELLO'') diskWithLedger ''a.txt'' =
       (diskWithLedger(''a.txt'' \<mapsto> ''HELLO''), SizeMismatch)
   \<and> (diskWithLedger(''a.txt'' \<mapsto> ''HELLO'')) ''.download_state.json'' = Some ledgerText
   \<and> (diskWithLedger(''a.txt'' \<mapsto> ''HELLO'')) ''a.txt'' = Some ''HELLO''
   \<and> target defaultConfig ''b.txt'' \<noteq> ledgerPath defaultConfig
   \<and> completes defaultConfig (respOf 5 ''HELLO'') diskWithLedger ''b.txt''
        \<lparr>StatusCode = 200, ContentLength = 5, Body = ''HELLO''\<rparr>
   \<and> Files (loadDownloadState defaultConfig (respOf 5 ''HELLO'') diskWithLedger)
        = Some (fmupd ''x'' 100 fmempty)
   \<and> snd (downloadFile defaultConfig (respOf 5 ''HELLO'') diskWithLedger ''b.txt'') = Downloaded 5
   \<and> fst (downloadFile defaultConfig (respOf 5 ''HELLO'') diskWithLedger ''b.txt'') ''b.txt''
        = Some ''HELLO''
   \<and> fst (downloadFile defaultConfig (respOf 5 ''HELLO'') diskWithLedger ''b.txt'')
        ''.download_state.json''
        = Some (Marshal \<lparr>Files = Some (fmupd ''b.txt'' 5 (fmupd ''x'' 100 fmempty))\<rparr>)"
proof -
  have n: "target defaultConfig ''a.txt'' \<noteq> ledgerPath defaultConfig"
    "target defaultConfig ''b.txt'' \<noteq> ledgerPath defaultConfig"
    by (simp_all add: paths_default)
  have d: "downloadFile defaultConfig (respOf 10 ''HELLO'') diskWithLedger ''a.txt'' =
       (diskWithLedger(''a.txt'' \<mapsto> ''HELLO''), SizeMismatch)"
    by (simp add: downloadFile_def transfer_mismatch)
  have l: "diskWithLedger ''.download_state.json'' = Some ledgerText"
    by (simp add: diskWithLedger_def)
  have b: "downloadFile defaultConfig (respOf 5 ''HELLO'') diskWithLedger ''b.txt'' =
      (fst (downloadFile defaultConfig (respOf 5 ''HELLO'') diskWithLedger ''b.txt''),
       snd (downloadFile defaultConfig (respOf 5 ''HELLO'') diskWithLedger ''b.txt''))"
    by simp
  have q: "\<not> readFileFails (respOf 5 ''HELLO'')" "writeResult (respOf 5 ''HELLO'') = WriteOK"
    by (simp_all add: respOf_def quietEnv_def)
  have m: "Files (loadDownloadState defaultConfig (respOf 5 ''HELLO'') diskWithLedger)
      = Some (fmupd ''x'' 100 fmempty)"
    by (simp add: load_diskWithLedger [OF q(1)] ledgerX_def)
  show ?thesis
    using ledger_updated_only_on_success [where fs = diskWithLedger, OF n(1) d]
      ledger_updated_only_on_success [where fs = diskWithLedger, OF n(2) b]
      n d l completes_b m q(2)
    by (simp add: paths_default)
qed

lemma transfer_alias:
  "transfer defaultConfig ((respOf 10 ''0123456789'')\<lparr>copyStops := Some 4\<rparr>) diskWithLedger
     ''.download_state.json'' =
     (diskWithLedger(''.download_state.json'' \<mapsto> ''0123''), CopyFailed)"
proof -
  have "of_nat (length ledgerText) \<noteq> (10::int64)"
    by (simp add: ledgerText_def)
  then show ?thesis
    using paths_default(4)
    by (simp add: transfer_def target_def respOf_def quietEnv_def diskWithLedger_def)
qed

text \<open>
  C3. The claim: on every failure path the ledger file is left untouched. When the file
  to download is the ledger file itself (the server lists a \<open>.download_state.json\<close> and
  the client runs with its default flags), \<open>os.Create\<close> truncates the ledger and a copy
  that fails after four bytes leaves those four bytes in it.
\<close>

theorem ledger_overwritten_by_failed_download:
  "downloadFile defaultConfig ((respOf 10 ''0123456789'')\<lparr>copyStops := Some 4\<rparr>) diskWithLedger
     ''.download_state.json'' =
     (diskWithLedger(''.download_state.json'' \<mapsto> ''0123''), CopyFailed)
   \<and> diskWithLedger (ledgerPath defaultConfig) = Some ledgerText
   \<and> (diskWithLedger(''.download_state.json'' \<mapsto> ''0123'')) (ledgerPath defaultConfig) = Some ''0123''
   \<and> ledgerText \<noteq> ''0123''"
  by (simp add: downloadFile_def transfer_alias paths_default)
    (simp add: diskWithLedger_def ledgerText_def)

theorem skip_when_complete_witness:
  "downloadFile defaultConfig (respOf 5 ''HELLO'') diskWithLedger ''a.txt'' = (diskWithLedger, Skipped)"
proof -
  have r: "doResult (respOf 5 ''HELLO'') = Some \<lparr>StatusCode = 200, ContentLength = 5, Body = ''HELLO''\<rparr>"
    by (simp add: respOf_def)
  have p: "0 <s ContentLength \<lparr>StatusCode = 200, ContentLength = 5, Body = ''HELLO''\<rparr>"
    by (simp add: sless_examples)
  have f: "diskWithLedger (target defaultConfig ''a.txt'') = Some ''hello''"
    by (simp add: paths_default diskWithLedger_def)
  have s: "of_nat (length ''hello'') = ContentLength \<lparr>StatusCode = 200, ContentLength = 5, Body = ''HELLO''\<rparr>"
    by simp
  have q: "\<not> newRequestFails (respOf 5 ''HELLO'')" "\<not> mkdirAllFails (respOf 5 ''HELLO'')"
    by (simp_all add: respOf_def quietEnv_def)
  show ?thesis
    using skip_when_complete [where fs = diskWithLedger and cfg = defaultConfig
        and filePath = "''a.txt''", OF r p f s] q
    by (cases "downloadFile defaultConfig (respOf 5 ''HELLO'') diskWithLedger ''a.txt''") simp
qed

theorem no_skip_without_size_witness:
  "downloadFile defaultConfig (respOf (- 1) ''HELLO'') diskWithLedger ''a.txt'' =
     (saveDownloadState defaultConfig (respOf (- 1) ''HELLO'') (diskWithLedger(''a.txt'' \<mapsto> ''HELLO''))
        \<lparr>Files = Some (fmupd ''a.txt'' 5 (fmupd ''x'' 100 fmempty))\<rparr>,
      Downloaded 5)
   \<and> diskWithLedger ''a.txt'' = Some ''hello''
   \<and> fst (downloadFile defaultConfig (respOf (- 1) ''HELLO'') diskWithLedger ''a.txt'') ''a.txt''
        = Some ''HELLO''
   \<and> snd (downloadFile defaultConfig (respOf 0 []) [''empty.txt'' \<mapsto> []] ''empty.txt'')
        = Downloaded 0
   \<and> fst (downloadFile defaultConfig (respOf 0 []) [''empty.txt'' \<mapsto> []] ''empty.txt'') ''empty.txt''
        = Some []"
proof -
  have r: "doResult (respOf (- 1) ''HELLO'') = Some \<lparr>StatusCode = 200, ContentLength = - 1, Body = ''HELLO''\<rparr>"
    "doResult (respOf 0 []) = Some \<lparr>StatusCode = 200, ContentLength = 0, Body = []\<rparr>"
    by (simp_all add: respOf_def)
  have p: "\<not> 0 <s ContentLength \<lparr>StatusCode = 200, ContentLength = - 1, Body = ''HELLO''\<rparr>"
    "\<not> 0 <s ContentLength \<lparr>StatusCode = 200, ContentLength = 0, Body = []\<rparr>"
    by (simp_all add: sless_examples)
  have q: "\<not> newRequestFails (respOf n b)" "\<not> mkdirAllFails (respOf n b)"
    "\<not> createFails (respOf n b)" "copyStops (respOf n b) = None"
    "\<not> readFileFails (respOf n b)" for n b
    by (simp_all add: respOf_def quietEnv_def)
  have n: "target defaultConfig ''a.txt'' \<noteq> ledgerPath defaultConfig"
    "target defaultConfig ''empty.txt'' \<noteq> ledgerPath defaultConfig"
    by (simp_all add: paths_default)
  have m: "Files (loadDownloadState defaultConfig (respOf (- 1) ''HELLO'') diskWithLedger)
      = Some (fmupd ''x'' 100 fmempty)"
    by (simp add: load_diskWithLedger [OF q(5)] ledgerX_def)
  have lp: "resolve defaultConfig (resumeFile defaultConfig) = ''.download_state.json''"
    using paths_default(1) by (simp add: ledgerPath_def)
  have m0: "Files (loadDownloadState defaultConfig (respOf 0 []) [''empty.txt'' \<mapsto> []])
      = Some fmempty"
    by (simp add: loadDownloadState_def ReadFile_def lp)
  have k: "diskWithLedger ''a.txt'' = Some ''hello''"
    by (simp add: diskWithLedger_def)
  show ?thesis
    using no_skip_without_size [where fs = diskWithLedger and cfg = defaultConfig
        and filePath = "''a.txt''", OF r(1) p(1)]
      no_skip_without_size [where fs = "[''empty.txt'' \<mapsto> []]" and cfg = defaultConfig
        and filePath = "''empty.txt''", OF r(2) p(2)] q n m m0 k
    by (simp add: paths_default saveDownloadState_other)
qed

text \<open>A ledger file holding \<open>"files": null\<close> loads as a nil map, and a completed
  transfer then panics at the assignment of line 305: this is the panic of a worker's
  call in the pool.\<close>

lemma null_ledger_panics:
  "downloadFile defaultConfig (respOf 5 ''HELLO'')
     [''.download_state.json'' \<mapsto> Marshal \<lparr>Files = None\<rparr>] ''b.txt'' =
     ([''.download_state.json'' \<mapsto> Marshal \<lparr>Files = None\<rparr>, ''b.txt'' \<mapsto> ''HELLO''], Panicked)"
proof -
  have v: "\<forall>k \<in> ledgerKeys \<lparr>Files = None\<rparr>. validUTF8 k"
    by (simp add: ledgerKeys_def)
  have lp: "resolve defaultConfig (resumeFile defaultConfig) = ''.download_state.json''"
    using paths_default(1) by (simp add: ledgerPath_def)
  have l: "loadDownloadState defaultConfig (respOf 5 ''HELLO'')
      [''.download_state.json'' \<mapsto> Marshal \<lparr>Files = None\<rparr>] = \<lparr>Files = None\<rparr>"
    using Unmarshal_Marshal [OF v]
    by (simp add: loadDownloadState_def ReadFile_def lp respOf_def quietEnv_def)
  have c: "completes defaultConfig (respOf 5 ''HELLO'')
      [''.download_state.json'' \<mapsto> Marshal \<lparr>Files = None\<rparr>] ''b.txt''
      \<lparr>StatusCode = 200, ContentLength = 5, Body = ''HELLO''\<rparr>"
    by (simp add: completes_def upToDate_def respOf_def quietEnv_def paths_default)
  show ?thesis
    by (simp add: downloadFile_def transfer_completes [OF c] l paths_default)
qed

end
